theory Spec2Isabelle
  imports Main
begin

section \<open>JavaScript strings\<close>

text \<open>
  Strings are lists of characters. \<^verbatim>\<open>trim\<close> removes the ASCII white space characters
  (space, tab, line feed, vertical tab, form feed, carriage return) at both ends,
  \<^verbatim>\<open>toLowerCase\<close> maps \<^verbatim>\<open>A-Z\<close> to \<^verbatim>\<open>a-z\<close>, \<^verbatim>\<open>includes\<close> is the substring test.
\<close>

definition is_space :: "char \<Rightarrow> bool" where
  "is_space c = (of_char c \<in> set [32, 9, 10, 11, 12, 13 :: nat])"

definition trim :: "string \<Rightarrow> string" where
  "trim s = rev (dropWhile is_space (rev (dropWhile is_space s)))"

definition lower_char :: "char \<Rightarrow> char" where
  "lower_char c = (let n = (of_char c :: nat) in if 65 \<le> n \<and> n \<le> 90 then char_of (n + 32) else c)"

definition toLowerCase :: "string \<Rightarrow> string" where
  "toLowerCase s = map lower_char s"

fun startsWith :: "string \<Rightarrow> string \<Rightarrow> bool" where
  "startsWith s [] = True"
| "startsWith [] (c # t) = False"
| "startsWith (c # s) (c' # t) = (c = c' \<and> startsWith s t)"

fun str_includes :: "string \<Rightarrow> string \<Rightarrow> bool" where
  "str_includes [] t = (t = [])"
| "str_includes (c # s) t = (startsWith (c # s) t \<or> str_includes s t)"

definition endsWith :: "string \<Rightarrow> string \<Rightarrow> bool" where
  "endsWith s t = startsWith (rev s) (rev t)"

text \<open>\<^verbatim>\<open>s.replace(/["']/g, "")\<close>\<close>

definition strip_quotes :: "string \<Rightarrow> string" where
  "strip_quotes s = filter (\<lambda>c. of_char c \<noteq> (34 :: nat) \<and> of_char c \<noteq> (39 :: nat)) s"

text \<open>\<^verbatim>\<open>s.replace(/\s+/g, '_')\<close>: every run of white space becomes one underscore.\<close>

fun replace_ws_from :: "bool \<Rightarrow> string \<Rightarrow> string" where
  "replace_ws_from in_run [] = []"
| "replace_ws_from in_run (c # s) =
     (if is_space c then (if in_run then replace_ws_from True s else CHR ''_'' # replace_ws_from True s)
      else c # replace_ws_from False s)"

definition replace_ws :: "string \<Rightarrow> string" where
  "replace_ws s = replace_ws_from False s"

text \<open>\<^verbatim>\<open>String(n)\<close> for a natural number, and \<^verbatim>\<open>padStart(2, "0")\<close>.\<close>

fun String_nat :: "nat \<Rightarrow> string" where
  "String_nat n = (if n < 10 then [char_of (48 + n)] else String_nat (n div 10) @ [char_of (48 + n mod 10)])"

declare String_nat.simps [simp del]

definition padStart2 :: "string \<Rightarrow> string" where
  "padStart2 s = replicate (2 - length s) CHR ''0'' @ s"

text \<open>A string-valued optional field is truthy when it is present and not empty.\<close>

fun the_default :: "'a \<Rightarrow> 'a option \<Rightarrow> 'a" where
  "the_default dflt None = dflt"
| "the_default dflt (Some x) = x"

fun truthy :: "string option \<Rightarrow> bool" where
  "truthy None = False"
| "truthy (Some s) = (s \<noteq> [])"

section \<open>The browser page as seen by the executor\<close>

text \<open>
  The executor of \<^verbatim>\<open>src/core/executor.ts\<close> drives one Playwright page. The browser is
  modelled by a state of an arbitrary type \<open>'w\<close> and a record of the Playwright calls the
  executor makes. A query (\<^verbatim>\<open>count\<close>, \<^verbatim>\<open>isVisible\<close>, \<^verbatim>\<open>boundingBox\<close>, ...) observes
  the state; an operation (\<^verbatim>\<open>click\<close>, \<^verbatim>\<open>fill\<close>, \<^verbatim>\<open>waitForSelector\<close>, ...) returns
  whether it resolved (\<open>True\<close>) or threw (\<open>False\<close>) together with the next state.
  Where the source attaches \<^verbatim>\<open>.catch(() => v)\<close> to a query, the field stands for the
  value after the catch.
\<close>

type_synonym box = "int \<times> int \<times> int \<times> int"

record 'w playwright =
  loc_count :: "'w \<Rightarrow> string \<Rightarrow> nat"
  loc_isVisible :: "'w \<Rightarrow> string \<Rightarrow> bool"
  loc_boundingBox :: "'w \<Rightarrow> string \<Rightarrow> box option"
  loc_isEnabled :: "'w \<Rightarrow> string \<Rightarrow> bool"
  loc_tagName :: "'w \<Rightarrow> string \<Rightarrow> string option"
  loc_getAttribute :: "'w \<Rightarrow> string \<Rightarrow> string \<Rightarrow> string option"
  loc_onclick :: "'w \<Rightarrow> string \<Rightarrow> bool"
  loc_fill :: "string \<Rightarrow> string \<Rightarrow> nat \<Rightarrow> 'w \<Rightarrow> bool \<times> 'w"
  loc_focus :: "string \<Rightarrow> nat \<Rightarrow> 'w \<Rightarrow> bool \<times> 'w"
  keyboard_type :: "string \<Rightarrow> 'w \<Rightarrow> bool \<times> 'w"
  page_click :: "string \<Rightarrow> nat \<Rightarrow> 'w \<Rightarrow> bool \<times> 'w"
  page_waitForSelector :: "string \<Rightarrow> nat \<Rightarrow> 'w \<Rightarrow> bool \<times> 'w"
  page_waitForTimeout :: "nat \<Rightarrow> 'w \<Rightarrow> 'w"
  page_goto :: "string \<Rightarrow> nat \<Rightarrow> 'w \<Rightarrow> bool \<times> 'w"
  page_screenshot :: "'w \<Rightarrow> bool \<times> 'w"
  page_url :: "'w \<Rightarrow> string"

text \<open>
  \<^verbatim>\<open>Date.now()\<close> is a clock in milliseconds kept beside the browser state;
  \<^verbatim>\<open>page.waitForTimeout(ms)\<close> advances it by \<open>ms\<close> while the browser moves on.
\<close>

record 'w page =
  clock :: nat
  world :: "'w"

definition waitForTimeout :: "'w playwright \<Rightarrow> nat \<Rightarrow> 'w page \<Rightarrow> 'w page" where
  "waitForTimeout d ms p = \<lparr>clock = clock p + ms, world = page_waitForTimeout d ms (world p)\<rparr>"

section \<open>Element resolution: trySelectorsSimple\<close>

text \<open>The inner \<^verbatim>\<open>while (Date.now() < deadline)\<close> loop for one selector \<open>s\<close>.\<close>

function pollSelector :: "'w playwright \<Rightarrow> string \<Rightarrow> nat \<Rightarrow> 'w page \<Rightarrow> bool \<times> 'w page" where
  "pollSelector d s deadline p =
     (if clock p < deadline then
        (if loc_count d (world p) s = 0 then pollSelector d s deadline (waitForTimeout d 100 p)
         else
           (let visible = loc_isVisible d (world p) s;
                box = (if visible then loc_boundingBox d (world p) s else None)
            in if visible \<and> box \<noteq> None then (True, p)
               else pollSelector d s deadline (waitForTimeout d 100 p)))
      else (False, p))"
  by pat_completeness auto
termination
  by (relation "measure (\<lambda>(d, s, deadline, p). deadline - clock p)")
     (auto simp: waitForTimeout_def)

declare pollSelector.simps [simp del]

text \<open>The \<^verbatim>\<open>for (const s of selectors)\<close> loop; an empty string is skipped.\<close>

fun trySelectorsSimple :: "'w playwright \<Rightarrow> 'w page \<Rightarrow> string list \<Rightarrow> nat \<Rightarrow> string option \<times> 'w page" where
  "trySelectorsSimple d p [] perSelectorMs = (None, p)"
| "trySelectorsSimple d p (s # selectors) perSelectorMs =
     (if s = [] then trySelectorsSimple d p selectors perSelectorMs
      else (case pollSelector d s (clock p + perSelectorMs) p of
              (True, p') \<Rightarrow> (Some s, p')
            | (False, p') \<Rightarrow> trySelectorsSimple d p' selectors perSelectorMs))"

section \<open>Interactivity checks\<close>

text \<open>
  \<^verbatim>\<open>isSelectorClickable\<close>. The DOM hints read by \<^verbatim>\<open>loc.evaluate\<close> are the tag name,
  the \<^verbatim>\<open>role\<close> attribute, the presence of a click handler (property or attribute) and of
  a \<^verbatim>\<open>tabindex\<close> attribute. The regular expression on the role is a case-insensitive
  search for one of seven words.
\<close>

definition role_is_interactive :: "string \<Rightarrow> bool" where
  "role_is_interactive role =
     list_ex (str_includes (toLowerCase role))
       [''button'', ''link'', ''menuitem'', ''option'', ''tab'', ''checkbox'', ''radio'']"

definition isSelectorClickable :: "'w playwright \<Rightarrow> 'w \<Rightarrow> string \<Rightarrow> bool" where
  "isSelectorClickable d w selector =
     (if selector = [] then False
      else if loc_count d w selector = 0 then False
      else if \<not> loc_isVisible d w selector then False
      else (case loc_boundingBox d w selector of
              None \<Rightarrow> False
            | Some box \<Rightarrow>
                (let enabled = loc_isEnabled d w selector;
                     tag = toLowerCase (case loc_tagName d w selector of None \<Rightarrow> [] | Some t \<Rightarrow> t);
                     role = (case loc_getAttribute d w selector ''role'' of None \<Rightarrow> [] | Some r \<Rightarrow> r);
                     hasOnClick = (loc_onclick d w selector \<or> truthy (loc_getAttribute d w selector ''onclick''));
                     hasTabIndex = (loc_getAttribute d w selector ''tabindex'' \<noteq> None)
                 in if tag \<in> set [''button'', ''a'', ''input''] \<and> enabled then True
                    else if role_is_interactive role \<and> enabled then True
                    else if hasOnClick \<and> (enabled \<or> True) then True
                    else if hasTabIndex \<and> enabled then True
                    else False)))"

text \<open>\<^verbatim>\<open>isSelectorFillable\<close>\<close>

definition isSelectorFillable :: "'w playwright \<Rightarrow> 'w \<Rightarrow> string \<Rightarrow> bool" where
  "isSelectorFillable d w selector =
     (if selector = [] then False
      else if loc_count d w selector = 0 then False
      else if \<not> loc_isVisible d w selector then False
      else (case loc_tagName d w selector of
              None \<Rightarrow> False
            | Some t \<Rightarrow>
                (let tag = toLowerCase t in
                 if tag = [] then False
                 else if tag = ''input'' \<or> tag = ''textarea'' then True
                 else if loc_getAttribute d w selector ''contenteditable'' = Some ''true'' then True
                 else (case loc_getAttribute d w selector ''role'' of
                         None \<Rightarrow> False
                       | Some role \<Rightarrow> role \<noteq> [] \<and> str_includes (toLowerCase role) ''textbox''))))"

text \<open>\<^verbatim>\<open>filterSelectorsByCheck\<close>: without a check only the empty strings are dropped.\<close>

definition filterSelectorsByCheck ::
  "'w \<Rightarrow> string list \<Rightarrow> ('w \<Rightarrow> string \<Rightarrow> bool) option \<Rightarrow> string list" where
  "filterSelectorsByCheck w selectors checkFn =
     (case checkFn of
        None \<Rightarrow> filter (\<lambda>s. s \<noteq> []) selectors
      | Some check \<Rightarrow> filter (\<lambda>s. s \<noteq> [] \<and> check w s) selectors)"

section \<open>Filling with keyboard fallback\<close>

text \<open>
  \<^verbatim>\<open>tryFillWithFallback\<close> returns \<^verbatim>\<open>success\<close>, the selectors tried and the browser state
  (the collected error objects are not modelled). The loop over the selectors carries
  \<^verbatim>\<open>tried\<close>; after the loop the text is typed into whatever has the focus, when allowed.
\<close>

fun tryFillWithFallback ::
  "'w playwright \<Rightarrow> string list \<Rightarrow> string \<Rightarrow> nat \<Rightarrow> bool \<Rightarrow> string list \<Rightarrow> 'w \<Rightarrow> bool \<times> string list \<times> 'w" where
  "tryFillWithFallback d [] txt timeoutMs fallbackToKeyboard tried w =
     (if fallbackToKeyboard then
        (case keyboard_type d txt w of
           (True, w') \<Rightarrow> (True, tried, w')
         | (False, w') \<Rightarrow> (False, tried, w'))
      else (False, tried, w))"
| "tryFillWithFallback d (s # selectors) txt timeoutMs fallbackToKeyboard tried w =
     (if s = [] then tryFillWithFallback d selectors txt timeoutMs fallbackToKeyboard tried w
      else if loc_count d w s = 0
        then tryFillWithFallback d selectors txt timeoutMs fallbackToKeyboard (tried @ [s]) w
      else (case loc_fill d s txt timeoutMs w of
              (True, w1) \<Rightarrow> (True, tried @ [s], w1)
            | (False, w1) \<Rightarrow>
                if fallbackToKeyboard then
                  (case loc_focus d s timeoutMs w1 of
                     (False, w2) \<Rightarrow>
                       tryFillWithFallback d selectors txt timeoutMs fallbackToKeyboard (tried @ [s]) w2
                   | (True, w2) \<Rightarrow>
                       (case keyboard_type d txt w2 of
                          (True, w3) \<Rightarrow> (True, tried @ [s], w3)
                        | (False, w3) \<Rightarrow>
                            tryFillWithFallback d selectors txt timeoutMs fallbackToKeyboard (tried @ [s]) w3))
                else tryFillWithFallback d selectors txt timeoutMs fallbackToKeyboard (tried @ [s]) w1))"

section \<open>Recovery candidates from the planner's answer\<close>

datatype json =
    JNull
  | JBool bool
  | JNum int
  | JStr string
  | JArr "json list"
  | JObj "(string \<times> json) list"

text \<open>
  \<^verbatim>\<open>collectFrom\<close> inside \<^verbatim>\<open>askPlannerForRecovery\<close>: under one of the three keys only an array
  is looked at, and only its non-blank string elements are taken; any other value is
  searched recursively.
\<close>

definition selector_key :: "string \<Rightarrow> bool" where
  "selector_key k = (k = ''selector'' \<or> k = ''selector_candidates'' \<or> k = ''selectors'')"

fun string_items :: "json list \<Rightarrow> string list" where
  "string_items [] = []"
| "string_items (JStr x # vs) = (if trim x \<noteq> [] then x # string_items vs else string_items vs)"
| "string_items (v # vs) = string_items vs"

fun collectFrom :: "json \<Rightarrow> string list"
  and collectItems :: "json list \<Rightarrow> string list"
  and collectFields :: "(string \<times> json) list \<Rightarrow> string list" where
  "collectFrom (JArr items) = collectItems items"
| "collectFrom (JObj kvs) = collectFields kvs"
| "collectFrom JNull = []"
| "collectFrom (JBool b) = []"
| "collectFrom (JNum n) = []"
| "collectFrom (JStr s) = []"
| "collectItems [] = []"
| "collectItems (item # items) = collectFrom item @ collectItems items"
| "collectFields [] = []"
| "collectFields ((k, v) # kvs) =
     (if selector_key k
        then (case v of JArr vs \<Rightarrow> string_items vs | _ \<Rightarrow> [])
        else collectFrom v) @ collectFields kvs"

text \<open>\<^verbatim>\<open>Array.from(new Set(xs))\<close> keeps the first occurrence of every element.\<close>

definition from_Set :: "string list \<Rightarrow> string list" where
  "from_Set xs = rev (remdups (rev xs))"

text \<open>
  \<^verbatim>\<open>askPlannerForRecovery\<close>. The argument is the planner's answer after \<^verbatim>\<open>JSON.parse\<close>
  (a string that does not parse stays a \<open>JStr\<close>), or \<open>None\<close> when the call threw.
\<close>

definition askPlannerForRecovery :: "json option \<Rightarrow> string list option" where
  "askPlannerForRecovery plannerOut =
     (case plannerOut of
        None \<Rightarrow> None
      | Some parsed \<Rightarrow>
          (let selectors = collectFrom parsed;
               uniq = take 12 (filter (\<lambda>s. s \<noteq> []) (map trim (from_Set selectors)))
           in if uniq \<noteq> [] then Some uniq else None))"

section \<open>Plans, actions and artifacts\<close>

datatype action_type = Click | Fill | WaitForSelector | Screenshot | Goto | WaitForTimeout | OtherType string

text \<open>\<^verbatim>\<open>PlanAction\<close> of \<^verbatim>\<open>planner.ts\<close>; \<^verbatim>\<open>wait_for\<close> is read by \<^verbatim>\<open>saveCheckpoint\<close> only.\<close>

record action =
  a_type :: action_type
  a_selector :: "string list option"
  a_selector_candidates :: "string list option"
  a_text :: "string option"
  a_url :: "string option"
  a_timeoutMs :: "nat option"
  a_checkpoint_name :: "string option"
  a_expected_dialog :: "string option"
  a_dialogTimeoutMs :: "nat option"
  a_fallback_to_keyboard :: "bool option"
  a_notes :: "string option"
  a_wait_for :: "string list option"

text \<open>An entry of \<^verbatim>\<open>action_sequence\<close> may be \<^verbatim>\<open>null\<close>; the executor skips it.\<close>

record checkpoint =
  c_name :: "string option"
  action_sequence :: "action option list"

record plan =
  p_task_id :: "string option"
  p_checkpoints :: "checkpoint list option"
  p_plan :: "action option list option"

record options =
  o_taskId :: "string option"
  o_outDir :: "string option"
  o_plannerConfidence :: "int option"
  o_instruction :: "string option"

datatype error =
    WaitNoMatch
  | ClickNoClickable
  | ClickNoMatch
  | ClickDialogMissing string
  | FillNoFillable
  | FillFailed "string list"
  | GotoMissingUrl
  | PlaywrightError
  | ExecutorAborted string nat error
  | NoCheckpoints

text \<open>
  The documents written to disk. A time stamp is the clock value (its ISO rendering is
  not modelled). The file system is the list of the files written, oldest first, each
  with its directory and its name.
\<close>

record meta =
  m_task_id :: string
  m_checkpoint :: string
  m_action_index :: nat
  m_action_type :: "action_type option"
  m_selector_used :: "string option"
  m_notes :: "string option"
  m_url :: string
  m_timestamp :: nat
  m_planner_confidence :: "int option"

record failure =
  f_task_id :: string
  f_checkpoint :: string
  f_action_index :: nat
  f_action :: action
  f_error :: error
  f_url :: string
  f_timestamp :: nat

datatype doc = Meta meta | Failure failure | Png | Marker nat

type_synonym files = "(string \<times> string \<times> doc) list"

definition path_join :: "string list \<Rightarrow> string" where
  "path_join parts = foldr (\<lambda>part rest. if rest = [] then part else part @ ''/'' @ rest) parts []"

definition existsSync :: "files \<Rightarrow> string \<Rightarrow> string \<Rightarrow> bool" where
  "existsSync fs dir name = list_ex (\<lambda>(dir', name', content). dir' = dir \<and> name' = name) fs"

definition readdirSync :: "files \<Rightarrow> string \<Rightarrow> string list" where
  "readdirSync fs dir = map (\<lambda>(dir', name', content). name') (filter (\<lambda>(dir', name', content). dir' = dir) fs)"

definition writeFileSync :: "string \<Rightarrow> string \<Rightarrow> doc \<Rightarrow> files \<Rightarrow> files" where
  "writeFileSync dir name content fs = fs @ [(dir, name, content)]"

text \<open>The state of a run: page and clock, files, and the selector memory.\<close>

record 'w exec_state =
  pg :: "'w page"
  files :: files
  lastSelectorUsed :: "string option"

definition set_world :: "'w \<Rightarrow> 'w exec_state \<Rightarrow> 'w exec_state" where
  "set_world w st = st\<lparr>pg := (pg st)\<lparr>world := w\<rparr>\<rparr>"

section \<open>Checkpoint capture: saveCheckpoint\<close>

definition shotFilename :: "nat \<Rightarrow> string \<Rightarrow> nat \<Rightarrow> string" where
  "shotFilename actionIndex checkpointName now =
     padStart2 (String_nat actionIndex) @ ''_'' @ replace_ws checkpointName @ ''_'' @ String_nat now @ ''.png''"

fun truthy_list :: "string option \<Rightarrow> string list" where
  "truthy_list None = []"
| "truthy_list (Some s) = (if s \<noteq> [] then [s] else [])"

text \<open>The loop over \<^verbatim>\<open>verificationCandidates\<close>: the first selector that appears.\<close>

fun waitForFirst :: "'w playwright \<Rightarrow> string list \<Rightarrow> nat \<Rightarrow> 'w \<Rightarrow> string option \<times> 'w" where
  "waitForFirst d [] timeout w = (None, w)"
| "waitForFirst d (v # vs) timeout w =
     (case page_waitForSelector d v timeout w of
        (True, w') \<Rightarrow> (Some v, w')
      | (False, w') \<Rightarrow> waitForFirst d vs timeout w')"

definition verificationCandidates :: "action option \<Rightarrow> string option \<Rightarrow> string list" where
  "verificationCandidates action selectorUsed =
     truthy_list selectorUsed @
     (case action of
        None \<Rightarrow> []
      | Some a \<Rightarrow> truthy_list (a_expected_dialog a) @ (case a_wait_for a of None \<Rightarrow> [] | Some ws \<Rightarrow> ws))"

definition saveCheckpoint ::
  "'w playwright \<Rightarrow> string \<Rightarrow> string \<Rightarrow> string \<Rightarrow> nat \<Rightarrow> action option \<Rightarrow> string option \<Rightarrow> int option
     \<Rightarrow> 'w exec_state \<Rightarrow> 'w exec_state" where
  "saveCheckpoint d outDir taskId checkpointName actionIndex action selectorUsed plannerConfidence st =
     (let ckptDir = path_join [outDir, taskId, checkpointName];
          shot = shotFilename actionIndex checkpointName (clock (pg st));
          timeout = (case action of
                       None \<Rightarrow> 2500
                     | Some a \<Rightarrow> (case a_dialogTimeoutMs a of None \<Rightarrow> 2500 | Some t \<Rightarrow> t))
      in case waitForFirst d (verificationCandidates action selectorUsed) timeout (world (pg st)) of
           (waitedFor, w1) \<Rightarrow>
             (case page_screenshot d w1 of
                (shotOk, w2) \<Rightarrow>
                  (let m = \<lparr>m_task_id = taskId,
                            m_checkpoint = checkpointName,
                            m_action_index = actionIndex,
                            m_action_type = map_option a_type action,
                            m_selector_used = (case waitedFor of None \<Rightarrow> selectorUsed | Some v \<Rightarrow> Some v),
                            m_notes = (case action of None \<Rightarrow> None | Some a \<Rightarrow> a_notes a),
                            m_url = page_url d w2,
                            m_timestamp = clock (pg st),
                            m_planner_confidence = plannerConfidence\<rparr>;
                       fs1 = (if shotOk then writeFileSync ckptDir shot Png (files st) else files st)
                   in (set_world w2 st)\<lparr>files := writeFileSync ckptDir ''meta.json'' (Meta m) fs1\<rparr>)))"

section \<open>The body of one action\<close>

text \<open>
  The \<^verbatim>\<open>try\<close> block of \<^verbatim>\<open>executeCheckpointedPlan\<close> either completes with
  \<^verbatim>\<open>chosenSelector\<close> or throws; the state reached is returned in both cases.
\<close>

datatype outcome = Completed "string option" | Thrown error

definition selectorsOrig :: "action \<Rightarrow> string list" where
  "selectorsOrig a =
     (case a_selector a of
        Some xs \<Rightarrow> xs
      | None \<Rightarrow> (case a_selector_candidates a of Some ys \<Rightarrow> ys | None \<Rightarrow> []))"

definition shouldUseLastSelectorOneShot :: "action option \<Rightarrow> action \<Rightarrow> string option \<Rightarrow> bool" where
  "shouldUseLastSelectorOneShot prevAction a remembered =
     (case prevAction of
        None \<Rightarrow> False
      | Some pa \<Rightarrow> a_type pa = WaitForSelector \<and> (a_type a = Click \<or> a_type a = Fill) \<and> truthy remembered)"

text \<open>The one-shot check: a remembered selector that fails the check is discarded.\<close>

definition revalidate :: "bool \<Rightarrow> (string \<Rightarrow> bool) \<Rightarrow> string option \<Rightarrow> string option" where
  "revalidate shouldUse check remembered =
     (case remembered of
        None \<Rightarrow> None
      | Some l \<Rightarrow> if shouldUse \<and> l \<noteq> [] \<and> \<not> check l then None else Some l)"

text \<open>\<^verbatim>\<open>mergedSelectors\<close>: the remembered selector first, then the declared ones, no repeats.\<close>

definition mergedSelectors :: "bool \<Rightarrow> string option \<Rightarrow> string list \<Rightarrow> string list" where
  "mergedSelectors shouldUse remembered orig =
     fold (\<lambda>s merged. if s \<noteq> [] \<and> s \<notin> set merged then merged @ [s] else merged) orig
       (if shouldUse then truthy_list remembered else [])"

definition timeoutOr :: "nat option \<Rightarrow> nat \<Rightarrow> nat" where
  "timeoutOr t dflt = (case t of None \<Rightarrow> dflt | Some ms \<Rightarrow> ms)"

text \<open>The locator \<^verbatim>\<open>:has-text("...")\<close>; character 34 is the double quote.\<close>

definition has_text :: "string \<Rightarrow> string" where
  "has_text t = '':has-text('' @ [char_of (34 :: nat)] @ t @ [char_of (34 :: nat)] @ '')''"

text \<open>
  The final heuristic of a click whose candidates did not resolve: click by visible
  text when \<^verbatim>\<open>action.text\<close> is present. Returns \<^verbatim>\<open>chosen\<close>, the memory and the page.
\<close>

definition clickTextHeuristic ::
  "'w playwright \<Rightarrow> action \<Rightarrow> string option \<Rightarrow> string option \<Rightarrow> 'w page
     \<Rightarrow> string option \<times> string option \<times> 'w page" where
  "clickTextHeuristic d a chosen remembered p =
     (case chosen of
        Some c \<Rightarrow> (Some c, remembered, p)
      | None \<Rightarrow>
          (case a_text a of
             None \<Rightarrow> (None, remembered, p)
           | Some t \<Rightarrow>
               if t \<noteq> [] \<and> length (trim t) > 0 then
                 (let textLoc = has_text (strip_quotes (trim t)) in
                  case page_click d textLoc (timeoutOr (a_timeoutMs a) 4000) (world p) of
                    (True, w') \<Rightarrow> (Some textLoc, Some textLoc, p\<lparr>world := w'\<rparr>)
                  | (False, w') \<Rightarrow> (None, remembered, p\<lparr>world := w'\<rparr>))
               else (None, remembered, p)))"

text \<open>The click itself and the check of the expected dialog.\<close>

definition performClick ::
  "'w playwright \<Rightarrow> action \<Rightarrow> string \<Rightarrow> 'w \<Rightarrow> outcome \<times> 'w" where
  "performClick d a chosen w =
     (case page_click d chosen (timeoutOr (a_timeoutMs a) 5000) w of
        (False, w1) \<Rightarrow> (Thrown PlaywrightError, w1)
      | (True, w1) \<Rightarrow>
          (case a_expected_dialog a of
             None \<Rightarrow> (Completed (Some chosen), w1)
           | Some e \<Rightarrow>
               if e = [] then (Completed (Some chosen), w1)
               else (case page_waitForSelector d e (timeoutOr (a_dialogTimeoutMs a) 3000) w1 of
                       (True, w2) \<Rightarrow> (Completed (Some chosen), w2)
                     | (False, w2) \<Rightarrow> (Thrown (ClickDialogMissing e), w2))))"

text \<open>The click after resolution: text heuristic, memory update, click, expected dialog.\<close>

definition finishClick ::
  "'w playwright \<Rightarrow> action \<Rightarrow> bool \<Rightarrow> string option \<Rightarrow> string option \<Rightarrow> 'w page \<Rightarrow> 'w exec_state
     \<Rightarrow> outcome \<times> 'w exec_state" where
  "finishClick d a shouldUse remembered1 chosen0 p1 st =
     (case clickTextHeuristic d a chosen0 remembered1 p1 of
        (None, remembered2, p2) \<Rightarrow>
          (Thrown ClickNoMatch, st\<lparr>pg := p2, lastSelectorUsed := remembered2\<rparr>)
      | (Some chosen, remembered2, p2) \<Rightarrow>
          (let remembered3 =
                 (if shouldUse \<and> truthy remembered2 \<and> Some chosen = remembered2
                  then None else Some chosen)
           in case performClick d a chosen (world p2) of
                (res, w3) \<Rightarrow>
                  (res, st\<lparr>pg := p2\<lparr>world := w3\<rparr>, lastSelectorUsed := remembered3\<rparr>)))"

definition execClick :: "'w playwright \<Rightarrow> action \<Rightarrow> bool \<Rightarrow> 'w exec_state \<Rightarrow> outcome \<times> 'w exec_state" where
  "execClick d a shouldUse st =
     (let remembered1 = revalidate shouldUse (isSelectorClickable d (world (pg st))) (lastSelectorUsed st);
          merged = mergedSelectors shouldUse remembered1 (selectorsOrig a);
          filteredCandidates =
            filterSelectorsByCheck (world (pg st)) (if merged \<noteq> [] then merged else selectorsOrig a)
              (Some (isSelectorClickable d))
      in if filteredCandidates = [] then (Thrown ClickNoClickable, st\<lparr>lastSelectorUsed := remembered1\<rparr>)
         else
           (case trySelectorsSimple d (pg st) filteredCandidates 1200 of
              (chosen0, p1) \<Rightarrow> finishClick d a shouldUse remembered1 chosen0 p1 st))"

definition fill_text :: "action \<Rightarrow> string" where
  "fill_text a = (case a_text a of None \<Rightarrow> [] | Some t \<Rightarrow> t)"

definition fill_fallback :: "action \<Rightarrow> bool" where
  "fill_fallback a = (a_fallback_to_keyboard a = Some True)"

text \<open>The retry of a failed fill after waiting for the expected dialog.\<close>

definition fillRetry ::
  "'w playwright \<Rightarrow> action \<Rightarrow> bool \<Rightarrow> string list \<Rightarrow> string list \<Rightarrow> 'w exec_state
     \<Rightarrow> outcome \<times> 'w exec_state" where
  "fillRetry d a shouldUse retrySelectors tried st =
     (case a_expected_dialog a of
        None \<Rightarrow> (Thrown (FillFailed tried), st)
      | Some e \<Rightarrow>
          if e = [] then (Thrown (FillFailed tried), st)
          else
            (case page_waitForSelector d e (timeoutOr (a_dialogTimeoutMs a) 2500) (world (pg st)) of
               (appeared, w2) \<Rightarrow>
                 (case trySelectorsSimple d ((pg st)\<lparr>world := w2\<rparr>) retrySelectors 1000 of
                    (None, p3) \<Rightarrow> (Thrown (FillFailed tried), st\<lparr>pg := p3\<rparr>)
                  | (Some retry, p3) \<Rightarrow>
                      (case tryFillWithFallback d [retry] (fill_text a) (timeoutOr (a_timeoutMs a) 5000)
                              (fill_fallback a) [] (world p3) of
                         (True, tried', w4) \<Rightarrow>
                           (Completed (Some retry),
                            st\<lparr>pg := p3\<lparr>world := w4\<rparr>,
                               lastSelectorUsed :=
                                 (if shouldUse \<and> lastSelectorUsed st = Some retry then None else Some retry)\<rparr>)
                       | (False, tried', w4) \<Rightarrow>
                           (Thrown (FillFailed tried), st\<lparr>pg := p3\<lparr>world := w4\<rparr>\<rparr>)))))"

text \<open>The fill of the filtered candidates, and the bookkeeping of the reference used.\<close>

definition finishFill ::
  "'w playwright \<Rightarrow> action \<Rightarrow> bool \<Rightarrow> string option \<Rightarrow> string list \<Rightarrow> string list \<Rightarrow> 'w exec_state
     \<Rightarrow> outcome \<times> 'w exec_state" where
  "finishFill d a shouldUse remembered1 merged filteredFillCandidates st =
     (case tryFillWithFallback d filteredFillCandidates (fill_text a) (timeoutOr (a_timeoutMs a) 5000)
             (fill_fallback a) [] (world (pg st)) of
        (False, tried, w1) \<Rightarrow>
          fillRetry d a shouldUse (if merged \<noteq> [] then merged else selectorsOrig a) tried
            ((set_world w1 st)\<lparr>lastSelectorUsed := remembered1\<rparr>)
      | (True, tried, w1) \<Rightarrow>
          if shouldUse \<and> truthy remembered1 \<and> (case merged of [] \<Rightarrow> False | m0 # ms \<Rightarrow> Some m0 = remembered1)
          then (Completed remembered1, (set_world w1 st)\<lparr>lastSelectorUsed := None\<rparr>)
          else
            (let chosenSelector =
                   (case a_selector a of
                      None \<Rightarrow> remembered1
                    | Some [] \<Rightarrow> remembered1
                    | Some (s0 # ss) \<Rightarrow> if s0 \<noteq> [] then Some s0 else remembered1)
             in (Completed chosenSelector, (set_world w1 st)\<lparr>lastSelectorUsed := chosenSelector\<rparr>)))"

definition execFill :: "'w playwright \<Rightarrow> action \<Rightarrow> bool \<Rightarrow> 'w exec_state \<Rightarrow> outcome \<times> 'w exec_state" where
  "execFill d a shouldUse st =
     (let remembered1 = revalidate shouldUse (isSelectorFillable d (world (pg st))) (lastSelectorUsed st);
          merged = mergedSelectors shouldUse remembered1 (selectorsOrig a);
          filteredFillCandidates =
            filterSelectorsByCheck (world (pg st)) (if merged \<noteq> [] then merged else selectorsOrig a)
              (Some (isSelectorFillable d))
      in if filteredFillCandidates = [] then (Thrown FillNoFillable, st\<lparr>lastSelectorUsed := remembered1\<rparr>)
         else finishFill d a shouldUse remembered1 merged filteredFillCandidates st)"

definition execWaitForSelector :: "'w playwright \<Rightarrow> action \<Rightarrow> 'w exec_state \<Rightarrow> outcome \<times> 'w exec_state" where
  "execWaitForSelector d a st =
     (case trySelectorsSimple d (pg st) (selectorsOrig a) 1200 of
        (Some chosen, p1) \<Rightarrow>
          (case page_waitForSelector d chosen (timeoutOr (a_timeoutMs a) 5000) (world p1) of
             (appeared, w2) \<Rightarrow>
               (Completed (Some chosen), st\<lparr>pg := p1\<lparr>world := w2\<rparr>, lastSelectorUsed := Some chosen\<rparr>))
      | (None, p1) \<Rightarrow> (Thrown WaitNoMatch, st\<lparr>pg := p1\<rparr>))"

text \<open>\<^verbatim>\<open>action.url || action.text || selector[0] || null\<close>\<close>

definition goto_url :: "action \<Rightarrow> string option" where
  "goto_url a =
     (if truthy (a_url a) then a_url a
      else if truthy (a_text a) then a_text a
      else (case a_selector a of
              Some (s0 # ss) \<Rightarrow> if s0 \<noteq> [] then Some s0 else None
            | _ \<Rightarrow> None))"

definition execGoto :: "'w playwright \<Rightarrow> action \<Rightarrow> 'w exec_state \<Rightarrow> outcome \<times> 'w exec_state" where
  "execGoto d a st =
     (case goto_url a of
        None \<Rightarrow> (Thrown GotoMissingUrl, st)
      | Some u \<Rightarrow>
          (case page_goto d u (timeoutOr (a_timeoutMs a) 30000) (world (pg st)) of
             (False, w1) \<Rightarrow> (Thrown PlaywrightError, set_world w1 st)
           | (True, w1) \<Rightarrow> (Completed (Some u), (set_world w1 st)\<lparr>lastSelectorUsed := None\<rparr>)))"

text \<open>The resolved settings of a run: \<^verbatim>\<open>taskId\<close>, \<^verbatim>\<open>outDir\<close>, \<^verbatim>\<open>plannerConfidence\<close>, \<^verbatim>\<open>instruction\<close>.\<close>

record settings =
  taskId :: string
  outDir :: string
  plannerConfidence :: "int option"
  instruction :: string

definition captureName :: "action \<Rightarrow> string \<Rightarrow> string" where
  "captureName a name = (case a_checkpoint_name a of None \<Rightarrow> name | Some n \<Rightarrow> if n \<noteq> [] then n else name)"

definition execAction ::
  "'w playwright \<Rightarrow> settings \<Rightarrow> string \<Rightarrow> nat \<Rightarrow> action option \<Rightarrow> action \<Rightarrow> 'w exec_state
     \<Rightarrow> outcome \<times> 'w exec_state" where
  "execAction d cfg name ai prevAction a st =
     (let shouldUse = shouldUseLastSelectorOneShot prevAction a (lastSelectorUsed st) in
      case a_type a of
        WaitForSelector \<Rightarrow> execWaitForSelector d a st
      | Click \<Rightarrow> execClick d a shouldUse st
      | Fill \<Rightarrow> execFill d a shouldUse st
      | WaitForTimeout \<Rightarrow> (Completed None, st\<lparr>pg := waitForTimeout d (timeoutOr (a_timeoutMs a) 500) (pg st)\<rparr>)
      | Goto \<Rightarrow> execGoto d a st
      | Screenshot \<Rightarrow>
          (Completed None,
           saveCheckpoint d (outDir cfg) (taskId cfg) (captureName a name) ai (Some a)
             (lastSelectorUsed st) (plannerConfidence cfg) st)
      | OtherType t \<Rightarrow> (Completed None, st))"

section \<open>Recovery\<close>

text \<open>
  The candidates that mention \<^verbatim>\<open>action.text\<close> come first; JavaScript's sort is stable,
  as is \<open>sort_key\<close>.
\<close>

definition score :: "string \<Rightarrow> string \<Rightarrow> int" where
  "score textHint s =
     (let low = toLowerCase s in
      if str_includes low (has_text textHint) \<or> str_includes low textHint then - 1 else 0)"

definition orderCandidates :: "action \<Rightarrow> string list \<Rightarrow> string list" where
  "orderCandidates a candidates =
     (case a_text a of
        None \<Rightarrow> candidates
      | Some t \<Rightarrow>
          if t = [] then candidates
          else (let textHint = toLowerCase (trim t) in
                if textHint \<noteq> [] then sort_key (score textHint) candidates else candidates))"

text \<open>
  After a click or fill of a recovery candidate, the expected dialog (when the action
  declares one) must appear; the result is \<open>False\<close> when it does not.
\<close>

definition verifyExpectedDialog :: "'w playwright \<Rightarrow> action \<Rightarrow> 'w \<Rightarrow> bool \<times> 'w" where
  "verifyExpectedDialog d a w =
     (case a_expected_dialog a of
        None \<Rightarrow> (True, w)
      | Some e \<Rightarrow>
          if e = [] then (True, w)
          else page_waitForSelector d e (timeoutOr (a_dialogTimeoutMs a) 2500) w)"

text \<open>One trial of the loop \<^verbatim>\<open>for (const candidate of orderedCandidates)\<close>.\<close>

definition tryCandidate :: "'w playwright \<Rightarrow> action \<Rightarrow> string \<Rightarrow> 'w \<Rightarrow> bool \<times> 'w" where
  "tryCandidate d a candidate w =
     (case a_type a of
        Click \<Rightarrow>
          (case page_click d candidate (timeoutOr (a_timeoutMs a) 5000) w of
             (False, w1) \<Rightarrow> (False, w1)
           | (True, w1) \<Rightarrow> verifyExpectedDialog d a w1)
      | Fill \<Rightarrow>
          (case tryFillWithFallback d [candidate] (fill_text a) (timeoutOr (a_timeoutMs a) 5000)
                  (fill_fallback a) [] w of
             (False, tried, w1) \<Rightarrow> (False, w1)
           | (True, tried, w1) \<Rightarrow> verifyExpectedDialog d a w1)
      | WaitForSelector \<Rightarrow> page_waitForSelector d candidate (timeoutOr (a_timeoutMs a) 5000) w
      | _ \<Rightarrow> page_click d candidate (timeoutOr (a_timeoutMs a) 5000) w)"

fun tryRecoveryCandidates ::
  "'w playwright \<Rightarrow> action \<Rightarrow> string list \<Rightarrow> 'w exec_state \<Rightarrow> bool \<times> 'w exec_state" where
  "tryRecoveryCandidates d a [] st = (False, st)"
| "tryRecoveryCandidates d a (candidate # candidates) st =
     (case tryCandidate d a candidate (world (pg st)) of
        (True, w1) \<Rightarrow> (True, (set_world w1 st)\<lparr>lastSelectorUsed := Some candidate\<rparr>)
      | (False, w1) \<Rightarrow> tryRecoveryCandidates d a candidates (set_world w1 st))"

text \<open>
  The \<^verbatim>\<open>catch\<close> block up to the recovery loop. The planner is a function of the
  instruction, the page (of which the snapshot is taken) and the failing action; it
  returns the parsed answer, or \<open>None\<close> when the call threw. The snapshot files that
  \<^verbatim>\<open>captureDomSummary\<close> writes under \<^verbatim>\<open>recovery\<close> are not modelled.
\<close>

type_synonym 'w planner = "string \<Rightarrow> 'w \<Rightarrow> action \<Rightarrow> json option"

definition recoveryCandidates :: "'w playwright \<Rightarrow> action \<Rightarrow> 'w \<Rightarrow> string list \<Rightarrow> string list" where
  "recoveryCandidates d a w recoverySelectors =
     (if a_type a = Click then filterSelectorsByCheck w recoverySelectors (Some (isSelectorClickable d))
      else if a_type a = Fill then filterSelectorsByCheck w recoverySelectors (Some (isSelectorFillable d))
      else recoverySelectors)"

definition recoverAction ::
  "'w playwright \<Rightarrow> 'w planner \<Rightarrow> settings \<Rightarrow> action \<Rightarrow> 'w exec_state \<Rightarrow> bool \<times> 'w exec_state" where
  "recoverAction d planner cfg a st =
     (let st1 = st\<lparr>pg := waitForTimeout d 800 (pg st)\<rparr>;
          recoverySelectors =
            askPlannerForRecovery
              (planner (if instruction cfg \<noteq> [] then instruction cfg else ''Perform task'') (world (pg st1)) a)
      in case recoverySelectors of
           None \<Rightarrow> (False, st1)
         | Some rs \<Rightarrow>
             if rs = [] then (False, st1)
             else
               (let filteredRecoveryCandidates = recoveryCandidates d a (world (pg st1)) rs in
                if (a_type a = Click \<or> a_type a = Fill) \<and> filteredRecoveryCandidates = [] then (False, st1)
                else tryRecoveryCandidates d a (orderCandidates a filteredRecoveryCandidates) st1))"

section \<open>The plan runner\<close>

definition failureDoc :: "'w playwright \<Rightarrow> settings \<Rightarrow> string \<Rightarrow> nat \<Rightarrow> action \<Rightarrow> error \<Rightarrow> 'w exec_state \<Rightarrow> failure" where
  "failureDoc d cfg name ai a err st =
     \<lparr>f_task_id = taskId cfg, f_checkpoint = name, f_action_index = ai, f_action = a, f_error = err,
      f_url = page_url d (world (pg st)), f_timestamp = clock (pg st)\<rparr>"

text \<open>
  The loop over the actions of one checkpoint, from index \<open>ai\<close>, with the entry before
  it. The result is the error thrown by the run, if any.
\<close>

fun runActions ::
  "'w playwright \<Rightarrow> 'w planner \<Rightarrow> settings \<Rightarrow> string \<Rightarrow> action option \<Rightarrow> nat \<Rightarrow> action option list
     \<Rightarrow> 'w exec_state \<Rightarrow> error option \<times> 'w exec_state" where
  "runActions d planner cfg name prevAction ai [] st = (None, st)"
| "runActions d planner cfg name prevAction ai (None # actions) st =
     runActions d planner cfg name None (Suc ai) actions st"
| "runActions d planner cfg name prevAction ai (Some a # actions) st =
     (case execAction d cfg name ai prevAction a st of
        (Completed chosenSelector, st1) \<Rightarrow> runActions d planner cfg name (Some a) (Suc ai) actions st1
      | (Thrown err, st1) \<Rightarrow>
          (case recoverAction d planner cfg a st1 of
             (True, st2) \<Rightarrow> runActions d planner cfg name (Some a) (Suc ai) actions st2
           | (False, st2) \<Rightarrow>
               (Some (ExecutorAborted name ai err),
                st2\<lparr>files := writeFileSync (path_join [outDir cfg, taskId cfg, name]) ''failure.json''
                                (Failure (failureDoc d cfg name ai a err st2)) (files st2)\<rparr>)))"

text \<open>
  \<^verbatim>\<open>let name = checkpoint.name + "_checkpoint" || `checkpoint_${ck}`\<close>: a missing name is
  rendered as \<^verbatim>\<open>undefined\<close> by the concatenation.
\<close>

definition checkpointDirName :: "nat \<Rightarrow> checkpoint \<Rightarrow> string" where
  "checkpointDirName ck checkpoint =
     (let name = (case c_name checkpoint of None \<Rightarrow> ''undefined'' | Some n \<Rightarrow> n) @ ''_checkpoint''
      in if name \<noteq> [] then name else ''checkpoint_'' @ String_nat ck)"

text \<open>The implicit capture at the end of a checkpoint.\<close>

definition implicitCapture ::
  "'w playwright \<Rightarrow> settings \<Rightarrow> string \<Rightarrow> action option list \<Rightarrow> 'w exec_state \<Rightarrow> 'w exec_state" where
  "implicitCapture d cfg name actions st =
     (let ckptDir = path_join [outDir cfg, taskId cfg, name];
          pngExists = list_ex (\<lambda>f. endsWith (toLowerCase f) ''.png'') (readdirSync (files st) ckptDir)
      in if \<not> existsSync (files st) ckptDir ''meta.json''
            \<and> \<not> existsSync (files st) ckptDir ''.screenshot_saved'' \<and> \<not> pngExists
         then
           (let lastAction = (if actions \<noteq> [] then last actions else None);
                st1 = saveCheckpoint d (outDir cfg) (taskId cfg) name (length actions - 1) lastAction
                        (lastSelectorUsed st) (plannerConfidence cfg) st
            in st1\<lparr>files := writeFileSync ckptDir ''.screenshot_saved'' (Marker (clock (pg st1))) (files st1)\<rparr>)
         else st)"

definition runCheckpoint ::
  "'w playwright \<Rightarrow> 'w planner \<Rightarrow> settings \<Rightarrow> nat \<Rightarrow> checkpoint \<Rightarrow> 'w exec_state
     \<Rightarrow> error option \<times> 'w exec_state" where
  "runCheckpoint d planner cfg ck checkpoint st =
     (let name = checkpointDirName ck checkpoint;
          actions = action_sequence checkpoint
      in case runActions d planner cfg name None 0 actions (st\<lparr>lastSelectorUsed := None\<rparr>) of
           (Some err, st1) \<Rightarrow> (Some err, st1)
         | (None, st1) \<Rightarrow> (None, implicitCapture d cfg name actions st1))"

fun runCheckpoints ::
  "'w playwright \<Rightarrow> 'w planner \<Rightarrow> settings \<Rightarrow> nat \<Rightarrow> checkpoint list \<Rightarrow> 'w exec_state
     \<Rightarrow> error option \<times> 'w exec_state" where
  "runCheckpoints d planner cfg ck [] st = (None, st)"
| "runCheckpoints d planner cfg ck (checkpoint # checkpoints) st =
     (case runCheckpoint d planner cfg ck checkpoint st of
        (Some err, st1) \<Rightarrow> (Some err, st1)
      | (None, st1) \<Rightarrow> runCheckpoints d planner cfg (Suc ck) checkpoints st1)"

record run_result =
  status :: string
  task_id :: string
  checkpoints_executed :: nat
  timestamp :: nat

definition resolveSettings :: "plan \<Rightarrow> options \<Rightarrow> settings" where
  "resolveSettings checkpointedPlan opts =
     \<lparr>taskId = (if truthy (o_taskId opts) then the_default [] (o_taskId opts)
                else if truthy (p_task_id checkpointedPlan) then the_default [] (p_task_id checkpointedPlan)
                else ''task''),
      outDir = (if truthy (o_outDir opts) then the_default [] (o_outDir opts) else ''outputs''),
      plannerConfidence = o_plannerConfidence opts,
      instruction = the_default [] (o_instruction opts)\<rparr>"

definition planCheckpoints :: "plan \<Rightarrow> checkpoint list" where
  "planCheckpoints checkpointedPlan =
     (case p_checkpoints checkpointedPlan of
        Some cks \<Rightarrow> cks
      | None \<Rightarrow>
          (case p_plan checkpointedPlan of
             Some acts \<Rightarrow> [\<lparr>c_name = Some ''plan'', action_sequence = acts\<rparr>]
           | None \<Rightarrow> []))"

definition executeCheckpointedPlan ::
  "'w playwright \<Rightarrow> 'w planner \<Rightarrow> plan \<Rightarrow> options \<Rightarrow> 'w exec_state \<Rightarrow> (error + run_result) \<times> 'w exec_state" where
  "executeCheckpointedPlan d planner checkpointedPlan opts st =
     (let cfg = resolveSettings checkpointedPlan opts;
          checkpoints = planCheckpoints checkpointedPlan
      in if checkpoints = [] then (Inl NoCheckpoints, st)
         else
           (case runCheckpoints d planner cfg 0 checkpoints st of
              (Some err, st1) \<Rightarrow> (Inl err, st1)
            | (None, st1) \<Rightarrow>
                (Inr \<lparr>status = ''success'', task_id = taskId cfg,
                      checkpoints_executed = length checkpoints, timestamp = clock (pg st1)\<rparr>, st1)))"

section \<open>Notions used to state the properties\<close>

text \<open>
  A selector resolves on a page when its element exists, is visible and has a bounding
  box: the three conditions polled by \<open>trySelectorsSimple\<close>.
\<close>

definition resolves :: "'w playwright \<Rightarrow> 'w \<Rightarrow> string \<Rightarrow> bool" where
  "resolves d w s = (loc_count d w s \<noteq> 0 \<and> loc_isVisible d w s \<and> loc_boundingBox d w s \<noteq> None)"

text \<open>The page at the \<open>k\<close>-th poll of a selector, polls being 100 ms apart.\<close>

definition poll_at :: "'w playwright \<Rightarrow> 'w page \<Rightarrow> nat \<Rightarrow> 'w page" where
  "poll_at d p k = ((waitForTimeout d 100) ^^ k) p"

section \<open>A scripted page for the examples\<close>

text \<open>
  The examples run the executor on a page whose state is the time elapsed and the list
  of the operations performed so far. A script says which selectors match an element at
  a given time after given operations; every element is a visible, enabled control whose
  tag is read off the selector.
\<close>

record demo_world =
  elapsed :: nat
  events :: "string list"

definition logged :: "string \<Rightarrow> demo_world \<Rightarrow> demo_world" where
  "logged e w = w\<lparr>events := events w @ [e]\<rparr>"

definition demo_tag :: "string \<Rightarrow> string" where
  "demo_tag s = (if startsWith s ''input'' then ''INPUT'' else if startsWith s ''div'' then ''DIV'' else ''BUTTON'')"

definition scripted_pw :: "(nat \<Rightarrow> string list \<Rightarrow> string \<Rightarrow> bool) \<Rightarrow> demo_world playwright" where
  "scripted_pw present =
     \<lparr>loc_count = (\<lambda>w s. if present (elapsed w) (events w) s then 1 else 0),
      loc_isVisible = (\<lambda>w s. True),
      loc_boundingBox = (\<lambda>w s. Some (0, 0, 10, 10)),
      loc_isEnabled = (\<lambda>w s. True),
      loc_tagName = (\<lambda>w s. Some (demo_tag s)),
      loc_getAttribute = (\<lambda>w s n. None),
      loc_onclick = (\<lambda>w s. False),
      loc_fill = (\<lambda>s txt ms w.
         (present (elapsed w) (events w) s \<and> demo_tag s = ''INPUT'', logged (''fill '' @ s @ '' '' @ txt) w)),
      loc_focus = (\<lambda>s ms w. (present (elapsed w) (events w) s, logged (''focus '' @ s) w)),
      keyboard_type = (\<lambda>txt w. (True, logged (''type '' @ txt) w)),
      page_click = (\<lambda>s ms w. (present (elapsed w) (events w) s, logged (''click '' @ s) w)),
      page_waitForSelector = (\<lambda>s ms w. (present (elapsed w + ms) (events w) s, w\<lparr>elapsed := elapsed w + ms\<rparr>)),
      page_waitForTimeout = (\<lambda>ms w. w\<lparr>elapsed := elapsed w + ms\<rparr>),
      page_goto = (\<lambda>u ms w. (True, logged (''goto '' @ u) w)),
      page_screenshot = (\<lambda>w. (True, w)),
      page_url = (\<lambda>w. ''https://example.test'')\<rparr>"

definition demo_page :: "demo_world page" where
  "demo_page = \<lparr>clock = 0, world = \<lparr>elapsed = 0, events = []\<rparr>\<rparr>"

text \<open>Resolution example: \<^verbatim>\<open>#slow\<close> appears after half a second, \<^verbatim>\<open>#fast\<close> is there at once.\<close>

definition latency_script :: "nat \<Rightarrow> string list \<Rightarrow> string \<Rightarrow> bool" where
  "latency_script t evs s = (s = ''#fast'' \<or> (s = ''#slow'' \<and> 500 \<le> t))"

text \<open>
  The arrays that the walk over a planner answer reaches: an array stored under one of the
  three keys of an object, the object being reached through arrays and through fields
  with other keys.
\<close>

inductive reaches :: "json \<Rightarrow> json list \<Rightarrow> bool" where
  key: "(k, JArr vs) \<in> set kvs \<Longrightarrow> selector_key k \<Longrightarrow> reaches (JObj kvs) vs"
| field: "(k, v) \<in> set kvs \<Longrightarrow> \<not> selector_key k \<Longrightarrow> reaches v vs \<Longrightarrow> reaches (JObj kvs) vs"
| item: "v \<in> set items \<Longrightarrow> reaches v vs \<Longrightarrow> reaches (JArr items) vs"

definition candidate_strings :: "json \<Rightarrow> string set" where
  "candidate_strings j = {x. \<exists>vs. reaches j vs \<and> JStr x \<in> set vs \<and> trim x \<noteq> []}"

text \<open>
  Modelled from the words of the specification, for comparison: every string found under
  a reference-like key, at any depth.
\<close>

fun all_strings :: "json \<Rightarrow> string list"
  and all_strings_items :: "json list \<Rightarrow> string list"
  and all_strings_fields :: "(string \<times> json) list \<Rightarrow> string list" where
  "all_strings (JStr s) = [s]"
| "all_strings (JArr items) = all_strings_items items"
| "all_strings (JObj kvs) = all_strings_fields kvs"
| "all_strings JNull = []"
| "all_strings (JBool b) = []"
| "all_strings (JNum n) = []"
| "all_strings_items [] = []"
| "all_strings_items (item # items) = all_strings item @ all_strings_items items"
| "all_strings_fields [] = []"
| "all_strings_fields ((k, v) # kvs) = all_strings v @ all_strings_fields kvs"

fun strings_under_keys :: "json \<Rightarrow> string list"
  and strings_under_keys_items :: "json list \<Rightarrow> string list"
  and strings_under_keys_fields :: "(string \<times> json) list \<Rightarrow> string list" where
  "strings_under_keys (JArr items) = strings_under_keys_items items"
| "strings_under_keys (JObj kvs) = strings_under_keys_fields kvs"
| "strings_under_keys JNull = []"
| "strings_under_keys (JBool b) = []"
| "strings_under_keys (JNum n) = []"
| "strings_under_keys (JStr s) = []"
| "strings_under_keys_items [] = []"
| "strings_under_keys_items (item # items) = strings_under_keys item @ strings_under_keys_items items"
| "strings_under_keys_fields [] = []"
| "strings_under_keys_fields ((k, v) # kvs) =
     (if selector_key k then all_strings v else strings_under_keys v) @ strings_under_keys_fields kvs"

text \<open>
  One-shot memory example: \<^verbatim>\<open>#new\<close> is a button, \<^verbatim>\<open>div.banner\<close> is a plain block and not
  clickable, \<^verbatim>\<open>#other\<close> is another button.
\<close>

definition memory_script :: "nat \<Rightarrow> string list \<Rightarrow> string \<Rightarrow> bool" where
  "memory_script t evs s = (s = ''#new'' \<or> s = ''div.banner'' \<or> s = ''#other'')"

definition plain_action :: "action_type \<Rightarrow> string list \<Rightarrow> action" where
  "plain_action ty sels =
     \<lparr>a_type = ty, a_selector = Some sels, a_selector_candidates = None, a_text = None, a_url = None,
      a_timeoutMs = None, a_checkpoint_name = None, a_expected_dialog = None, a_dialogTimeoutMs = None,
      a_fallback_to_keyboard = None, a_notes = None, a_wait_for = None\<rparr>"

definition demo_settings :: settings where
  "demo_settings = \<lparr>taskId = ''task'', outDir = ''outputs'', plannerConfidence = None, instruction = []\<rparr>"

definition demo_state :: "demo_world exec_state" where
  "demo_state = \<lparr>pg = demo_page, files = [], lastSelectorUsed = None\<rparr>"

text \<open>
  The side effect of a recovery trial for a click or a fill: the click on the candidate,
  or the fill of the candidate alone.
\<close>

definition sideEffect :: "'w playwright \<Rightarrow> action \<Rightarrow> string \<Rightarrow> 'w \<Rightarrow> bool \<times> 'w" where
  "sideEffect d a candidate w =
     (if a_type a = Fill
      then (case tryFillWithFallback d [candidate] (fill_text a) (timeoutOr (a_timeoutMs a) 5000)
                   (fill_fallback a) [] w of
              (ok, tried, w1) \<Rightarrow> (ok, w1))
      else page_click d candidate (timeoutOr (a_timeoutMs a) 5000) w)"

text \<open>Text fallback example: only the text locator for \<^verbatim>\<open>OK\<close> matches an element.\<close>

definition ok_script :: "nat \<Rightarrow> string list \<Rightarrow> string \<Rightarrow> bool" where
  "ok_script t evs s = (s = has_text ''OK'')"

definition ok_click :: action where
  "ok_click = (plain_action Click [''#gone''])\<lparr>a_text := Some ''OK''\<rparr>"

text \<open>Fill examples: a fill without candidates, and one whose first candidate is absent.\<close>

definition empty_fill :: action where
  "empty_fill = (plain_action Fill [])\<lparr>a_text := Some ''hello'', a_fallback_to_keyboard := Some True\<rparr>"

definition input_script :: "nat \<Rightarrow> string list \<Rightarrow> string \<Rightarrow> bool" where
  "input_script t evs s = (s = ''input#real'')"

definition alpha_fill :: action where
  "alpha_fill = (plain_action Fill [''#missing'', ''input#real''])\<lparr>a_text := Some ''Alpha''\<rparr>"

text \<open>
  Recovery example: both buttons are there, the dialog opens once \<^verbatim>\<open>#right\<close> has been
  clicked.
\<close>

definition dialog_script :: "nat \<Rightarrow> string list \<Rightarrow> string \<Rightarrow> bool" where
  "dialog_script t evs s =
     (s = ''#wrong'' \<or> s = ''#right'' \<or> (s = ''role=dialog'' \<and> ''click #right'' \<in> set evs))"

definition dialog_click :: action where
  "dialog_click = (plain_action Click [''#stale''])\<lparr>a_expected_dialog := Some ''role=dialog''\<rparr>"

text \<open>
  Fill retry example: the input rejects values during the first 2.5 seconds; the fill
  declares an expected dialog, which never shows.
\<close>

definition late_fill_pw :: "demo_world playwright" where
  "late_fill_pw =
     (scripted_pw input_script)
       \<lparr>loc_fill := (\<lambda>s txt ms w. (s = ''input#real'' \<and> 2500 \<le> elapsed w, logged (''fill '' @ s @ '' '' @ txt) w))\<rparr>"

definition late_fill :: action where
  "late_fill = (plain_action Fill [''input#real''])\<lparr>a_text := Some ''Alpha'', a_expected_dialog := Some ''role=dialog''\<rparr>"

section \<open>Notions about the files of a run\<close>

text \<open>The failure documents among a list of written files.\<close>

fun failure_docs :: "files \<Rightarrow> failure list" where
  "failure_docs [] = []"
| "failure_docs ((dir, name, Failure f) # fs) = f # failure_docs fs"
| "failure_docs ((dir, name, content) # fs) = failure_docs fs"

text \<open>
  A file of a capture in directory \<open>dir\<close>: a screenshot, or the metadata document
  \<^verbatim>\<open>meta.json\<close>.
\<close>

fun capture_entry :: "string \<Rightarrow> string \<times> string \<times> doc \<Rightarrow> bool" where
  "capture_entry dir (dir', name, Png) = (dir' = dir)"
| "capture_entry dir (dir', name, Meta m) = (dir' = dir \<and> name = ''meta.json'')"
| "capture_entry dir (dir', name, content) = False"

text \<open>
  The directories of the explicit captures of a checkpoint: one for each screenshot
  action, named by its \<^verbatim>\<open>checkpoint_name\<close>, or by the checkpoint when it has none.
\<close>

fun capture_dirs :: "settings \<Rightarrow> string \<Rightarrow> action option list \<Rightarrow> string list" where
  "capture_dirs cfg name [] = []"
| "capture_dirs cfg name (None # actions) = capture_dirs cfg name actions"
| "capture_dirs cfg name (Some a # actions) =
     (if a_type a = Screenshot then [path_join [outDir cfg, taskId cfg, captureName a name]] else [])
     @ capture_dirs cfg name actions"

text \<open>
  What a checkpoint named \<open>name\<close> may write: failure documents and the marker in its own
  directory, captures in its own directory or in that of one of its explicit captures.
\<close>

fun checkpoint_entry :: "settings \<Rightarrow> string \<Rightarrow> action option list \<Rightarrow> string \<times> string \<times> doc \<Rightarrow> bool" where
  "checkpoint_entry cfg name actions (dir, fname, Failure f) =
     (dir = path_join [outDir cfg, taskId cfg, name] \<and> fname = ''failure.json'')"
| "checkpoint_entry cfg name actions (dir, fname, Marker t) =
     (dir = path_join [outDir cfg, taskId cfg, name] \<and> fname = ''.screenshot_saved'')"
| "checkpoint_entry cfg name actions (dir, fname, content) =
     (capture_entry dir (dir, fname, content)
      \<and> dir \<in> set (path_join [outDir cfg, taskId cfg, name] # capture_dirs cfg name actions))"

text \<open>Whether the implicit capture of a checkpoint directory is due.\<close>

definition capture_due :: "files \<Rightarrow> string \<Rightarrow> bool" where
  "capture_due fs ckptDir =
     (\<not> existsSync fs ckptDir ''meta.json'' \<and> \<not> existsSync fs ckptDir ''.screenshot_saved''
      \<and> \<not> list_ex (\<lambda>f. endsWith (toLowerCase f) ''.png'') (readdirSync fs ckptDir))"

text \<open>
  \<open>fs'\<close> is \<open>fs\<close> followed by files that a checkpoint may write, none of them a failure
  document.
\<close>

definition writes_captures :: "settings \<Rightarrow> string \<Rightarrow> action option list \<Rightarrow> files \<Rightarrow> files \<Rightarrow> bool" where
  "writes_captures cfg name actions fs fs' =
     (take (length fs) fs' = fs
      \<and> list_all (checkpoint_entry cfg name actions) (drop (length fs) fs')
      \<and> failure_docs (drop (length fs) fs') = [])"

text \<open>The state in which a run aborts: the failure document is written last.\<close>

definition aborted :: "'w playwright \<Rightarrow> settings \<Rightarrow> string \<Rightarrow> nat \<Rightarrow> action \<Rightarrow> error \<Rightarrow> 'w exec_state \<Rightarrow> 'w exec_state" where
  "aborted d cfg name ai a err st =
     st\<lparr>files := files st @ [(path_join [outDir cfg, taskId cfg, name], ''failure.json'',
                                Failure (failureDoc d cfg name ai a err st))]\<rparr>"

text \<open>
  Abort example: nothing on the page matches, the planner has no answer; the plan has a
  second checkpoint that would navigate.
\<close>

definition empty_script :: "nat \<Rightarrow> string list \<Rightarrow> string \<Rightarrow> bool" where
  "empty_script t evs s = False"

definition no_planner :: "demo_world planner" where
  "no_planner instr w a = None"

definition no_options :: options where
  "no_options = \<lparr>o_taskId = None, o_outDir = None, o_plannerConfidence = None, o_instruction = None\<rparr>"

definition abort_plan :: plan where
  "abort_plan =
     \<lparr>p_task_id = None,
      p_checkpoints = Some
        [\<lparr>c_name = Some ''first'', action_sequence = [Some (plain_action Click [''#gone''])]\<rparr>,
         \<lparr>c_name = Some ''second'',
          action_sequence = [Some ((plain_action Goto [])\<lparr>a_url := Some ''https://example.test/next''\<rparr>)]\<rparr>],
      p_plan = None\<rparr>"





text \<open>
  A second abort example: the first checkpoint navigates; the second navigates, clicks a
  button that is not there and would navigate again; the third would navigate too.
\<close>

definition goto_action :: "string \<Rightarrow> action" where
  "goto_action u = (plain_action Goto [])\<lparr>a_url := Some u\<rparr>"

definition late_first :: checkpoint where
  "late_first = \<lparr>c_name = Some ''first'', action_sequence = [Some (goto_action ''https://example.test/start'')]\<rparr>"

definition late_second :: checkpoint where
  "late_second =
     \<lparr>c_name = Some ''second'',
      action_sequence = [Some (goto_action ''https://example.test/mid''),
                         Some (plain_action Click [''#gone'']),
                         Some (goto_action ''https://example.test/after'')]\<rparr>"

definition late_third :: checkpoint where
  "late_third = \<lparr>c_name = Some ''third'', action_sequence = [Some (goto_action ''https://example.test/next'')]\<rparr>"

definition late_abort_plan :: plan where
  "late_abort_plan =
     \<lparr>p_task_id = None, p_checkpoints = Some [late_first, late_second, late_third], p_plan = None\<rparr>"

section \<open>Resolution priority\<close>

lemma pollSelector_unfold:
  "pollSelector d s deadline p =
     (if clock p < deadline then
        (if resolves d (world p) s then (True, p)
         else pollSelector d s deadline (waitForTimeout d 100 p))
      else (False, p))"
  by (subst pollSelector.simps) (auto simp: resolves_def Let_def)

lemma clock_waitForTimeout [simp]: "clock (waitForTimeout d ms p) = clock p + ms"
  by (simp add: waitForTimeout_def)

lemma pollSelector_True:
  "pollSelector d s deadline p = (True, p') \<Longrightarrow> resolves d (world p') s \<and> clock p' < deadline"
proof (induction "deadline - clock p" arbitrary: p rule: less_induct)
  case less
  show ?case
  proof (cases "clock p < deadline \<and> \<not> resolves d (world p) s")
    case True
    with less.prems have "pollSelector d s deadline (waitForTimeout d 100 p) = (True, p')"
      by (subst (asm) pollSelector_unfold) simp
    moreover from True have "deadline - clock (waitForTimeout d 100 p) < deadline - clock p"
      by auto
    ultimately show ?thesis by (rule less.hyps [rotated])
  next
    case False
    with less.prems show ?thesis
      by (subst (asm) pollSelector_unfold) (auto split: if_splits)
  qed
qed

lemma pollSelector_False:
  "pollSelector d s deadline p = (False, p') \<Longrightarrow> deadline \<le> clock p'"
proof (induction "deadline - clock p" arbitrary: p rule: less_induct)
  case less
  show ?case
  proof (cases "clock p < deadline \<and> \<not> resolves d (world p) s")
    case True
    with less.prems have "pollSelector d s deadline (waitForTimeout d 100 p) = (False, p')"
      by (subst (asm) pollSelector_unfold) simp
    moreover from True have "deadline - clock (waitForTimeout d 100 p) < deadline - clock p"
      by auto
    ultimately show ?thesis by (rule less.hyps [rotated])
  next
    case False
    with less.prems show ?thesis
      by (subst (asm) pollSelector_unfold) (auto split: if_splits)
  qed
qed

lemma pollSelector_ready:
  "clock p < deadline \<Longrightarrow> resolves d (world p) s \<Longrightarrow> pollSelector d s deadline p = (True, p)"
  by (subst pollSelector_unfold) simp

lemma trySelectorsSimple_Some_iff:
  "trySelectorsSimple d p sels per = (Some s, p') \<longleftrightarrow>
     (\<exists>xs ys q. sels = xs @ s # ys \<and> s \<noteq> [] \<and> trySelectorsSimple d p xs per = (None, q)
        \<and> pollSelector d s (clock q + per) q = (True, p'))"
proof (induction sels arbitrary: p)
  case Nil
  then show ?case by simp
next
  case (Cons x sels)
  show ?case
  proof (cases "x = []")
    case True
    show ?thesis
    proof
      assume "trySelectorsSimple d p (x # sels) per = (Some s, p')"
      with True Cons.IH [of p] obtain xs ys q where
        "sels = xs @ s # ys" "s \<noteq> []" "trySelectorsSimple d p xs per = (None, q)"
        "pollSelector d s (clock q + per) q = (True, p')" by auto
      with True have "x # sels = (x # xs) @ s # ys \<and> s \<noteq> [] \<and> trySelectorsSimple d p (x # xs) per = (None, q)
        \<and> pollSelector d s (clock q + per) q = (True, p')" by simp
      then show "\<exists>xs ys q. x # sels = xs @ s # ys \<and> s \<noteq> [] \<and> trySelectorsSimple d p xs per = (None, q)
        \<and> pollSelector d s (clock q + per) q = (True, p')" by blast
    next
      assume "\<exists>xs ys q. x # sels = xs @ s # ys \<and> s \<noteq> [] \<and> trySelectorsSimple d p xs per = (None, q)
        \<and> pollSelector d s (clock q + per) q = (True, p')"
      then obtain xs ys q where *: "x # sels = xs @ s # ys" "s \<noteq> []" "trySelectorsSimple d p xs per = (None, q)"
        "pollSelector d s (clock q + per) q = (True, p')" by blast
      with True obtain xs' where xs: "xs = x # xs'" by (cases xs) auto
      with * True have "sels = xs' @ s # ys" "trySelectorsSimple d p xs' per = (None, q)" by auto
      with * Cons.IH [of p] have "trySelectorsSimple d p sels per = (Some s, p')" by blast
      with True show "trySelectorsSimple d p (x # sels) per = (Some s, p')" by simp
    qed
  next
    case False
    obtain b p1 where poll: "pollSelector d x (clock p + per) p = (b, p1)" by (cases "pollSelector d x (clock p + per) p")
    show ?thesis
    proof (cases b)
      case True
      show ?thesis
      proof
        assume "trySelectorsSimple d p (x # sels) per = (Some s, p')"
        with False poll True have "s = x" "p' = p1" by auto
        with False poll True have "x # sels = [] @ s # sels \<and> s \<noteq> [] \<and> trySelectorsSimple d p [] per = (None, p)
          \<and> pollSelector d s (clock p + per) p = (True, p')" by simp
        then show "\<exists>xs ys q. x # sels = xs @ s # ys \<and> s \<noteq> [] \<and> trySelectorsSimple d p xs per = (None, q)
          \<and> pollSelector d s (clock q + per) q = (True, p')" by blast
      next
        assume "\<exists>xs ys q. x # sels = xs @ s # ys \<and> s \<noteq> [] \<and> trySelectorsSimple d p xs per = (None, q)
          \<and> pollSelector d s (clock q + per) q = (True, p')"
        then obtain xs ys q where *: "x # sels = xs @ s # ys" "s \<noteq> []" "trySelectorsSimple d p xs per = (None, q)"
          "pollSelector d s (clock q + per) q = (True, p')" by blast
        have "xs = []"
        proof (cases xs)
          case Nil then show ?thesis .
        next
          case (Cons x' xs')
          with * have "x' = x" by simp
          with Cons * False poll True show ?thesis by simp
        qed
        with * poll True False show "trySelectorsSimple d p (x # sels) per = (Some s, p')" by auto
      qed
    next
      case bF: False
      show ?thesis
      proof
        assume "trySelectorsSimple d p (x # sels) per = (Some s, p')"
        with False poll bF have "trySelectorsSimple d p1 sels per = (Some s, p')" by simp
        with Cons.IH [of p1] obtain xs ys q where
          "sels = xs @ s # ys" "s \<noteq> []" "trySelectorsSimple d p1 xs per = (None, q)"
          "pollSelector d s (clock q + per) q = (True, p')" by auto
        with False poll bF have "x # sels = (x # xs) @ s # ys \<and> s \<noteq> [] \<and> trySelectorsSimple d p (x # xs) per = (None, q)
          \<and> pollSelector d s (clock q + per) q = (True, p')" by simp
        then show "\<exists>xs ys q. x # sels = xs @ s # ys \<and> s \<noteq> [] \<and> trySelectorsSimple d p xs per = (None, q)
          \<and> pollSelector d s (clock q + per) q = (True, p')" by blast
      next
        assume "\<exists>xs ys q. x # sels = xs @ s # ys \<and> s \<noteq> [] \<and> trySelectorsSimple d p xs per = (None, q)
          \<and> pollSelector d s (clock q + per) q = (True, p')"
        then obtain xs ys q where *: "x # sels = xs @ s # ys" "s \<noteq> []" "trySelectorsSimple d p xs per = (None, q)"
          "pollSelector d s (clock q + per) q = (True, p')" by blast
        have "xs \<noteq> []"
        proof
          assume "xs = []"
          with * have "x = s" "q = p" by auto
          with * poll bF show False by simp
        qed
        then obtain xs' where xs: "xs = x # xs'" using * by (cases xs) auto
        with * False poll bF have "sels = xs' @ s # ys" "trySelectorsSimple d p1 xs' per = (None, q)" by auto
        with * Cons.IH [of p1] have "trySelectorsSimple d p1 sels per = (Some s, p')" by blast
        with False poll bF show "trySelectorsSimple d p (x # sels) per = (Some s, p')" by simp
      qed
    qed
  qed
qed



lemma poll_at_0 [simp]: "poll_at d p 0 = p"
  by (simp add: poll_at_def)

lemma poll_at_Suc: "poll_at d p (Suc k) = poll_at d (waitForTimeout d 100 p) k"
  by (simp add: poll_at_def funpow_swap1)

lemma clock_poll_at [simp]: "clock (poll_at d p k) = clock p + 100 * k"
  by (induction k arbitrary: p) (simp_all add: poll_at_Suc)

lemma pollSelector_True_iff:
  "pollSelector d s deadline p = (True, p') \<longleftrightarrow>
     (\<exists>k. p' = poll_at d p k \<and> clock p' < deadline \<and> resolves d (world p') s
        \<and> (\<forall>j<k. \<not> resolves d (world (poll_at d p j)) s))"
proof (induction "deadline - clock p" arbitrary: p rule: less_induct)
  case less
  let ?q = "waitForTimeout d 100 p"
  show ?case
  proof (cases "clock p < deadline")
    case False
    have "\<not> (\<exists>k. p' = poll_at d p k \<and> clock p' < deadline)"
    proof
      assume "\<exists>k. p' = poll_at d p k \<and> clock p' < deadline"
      then obtain k where "clock (poll_at d p k) < deadline" by blast
      with False show False by simp
    qed
    moreover from False have "pollSelector d s deadline p = (False, p)"
      by (subst pollSelector_unfold) simp
    ultimately show ?thesis by auto
  next
    case True
    show ?thesis
    proof (cases "resolves d (world p) s")
      case r: True
      with True have eq: "pollSelector d s deadline p = (True, p)"
        by (subst pollSelector_unfold) simp
      show ?thesis
      proof
        assume "pollSelector d s deadline p = (True, p')"
        with eq have "p' = p" by simp
        with r True have "p' = poll_at d p 0 \<and> clock p' < deadline \<and> resolves d (world p') s
          \<and> (\<forall>j<0. \<not> resolves d (world (poll_at d p j)) s)" by simp
        then show "\<exists>k. p' = poll_at d p k \<and> clock p' < deadline \<and> resolves d (world p') s
          \<and> (\<forall>j<k. \<not> resolves d (world (poll_at d p j)) s)" by blast
      next
        assume "\<exists>k. p' = poll_at d p k \<and> clock p' < deadline \<and> resolves d (world p') s
          \<and> (\<forall>j<k. \<not> resolves d (world (poll_at d p j)) s)"
        then obtain k where k: "p' = poll_at d p k" "\<forall>j<k. \<not> resolves d (world (poll_at d p j)) s" by blast
        have "k = 0"
        proof (rule ccontr)
          assume "k \<noteq> 0"
          then have "0 < k" by simp
          with k(2) have "\<not> resolves d (world (poll_at d p 0)) s" by blast
          with r show False by simp
        qed
        with k eq show "pollSelector d s deadline p = (True, p')" by simp
      qed
    next
      case r: False
      with True have eq: "pollSelector d s deadline p = pollSelector d s deadline ?q"
        by (subst pollSelector_unfold) simp
      from True have "deadline - clock ?q < deadline - clock p" by auto
      note IH = less.hyps [OF this]
      show ?thesis
      proof
        assume "pollSelector d s deadline p = (True, p')"
        with eq IH obtain k where k: "p' = poll_at d ?q k" "clock p' < deadline" "resolves d (world p') s"
          "\<forall>j<k. \<not> resolves d (world (poll_at d ?q j)) s" by auto
        have "\<forall>j<Suc k. \<not> resolves d (world (poll_at d p j)) s"
        proof (intro allI impI)
          fix j assume "j < Suc k"
          show "\<not> resolves d (world (poll_at d p j)) s"
          proof (cases j)
            case 0 with r show ?thesis by simp
          next
            case (Suc j')
            with \<open>j < Suc k\<close> k(4) show ?thesis by (simp add: poll_at_Suc)
          qed
        qed
        with k have "p' = poll_at d p (Suc k) \<and> clock p' < deadline \<and> resolves d (world p') s
          \<and> (\<forall>j<Suc k. \<not> resolves d (world (poll_at d p j)) s)" by (simp add: poll_at_Suc)
        then show "\<exists>k. p' = poll_at d p k \<and> clock p' < deadline \<and> resolves d (world p') s
          \<and> (\<forall>j<k. \<not> resolves d (world (poll_at d p j)) s)" by blast
      next
        assume "\<exists>k. p' = poll_at d p k \<and> clock p' < deadline \<and> resolves d (world p') s
          \<and> (\<forall>j<k. \<not> resolves d (world (poll_at d p j)) s)"
        then obtain k where k: "p' = poll_at d p k" "clock p' < deadline" "resolves d (world p') s"
          "\<forall>j<k. \<not> resolves d (world (poll_at d p j)) s" by blast
        from k r obtain k' where k': "k = Suc k'" by (cases k) auto
        have "\<forall>j<k'. \<not> resolves d (world (poll_at d ?q j)) s"
        proof (intro allI impI)
          fix j assume "j < k'"
          with k' have "Suc j < k" by simp
          with k(4) show "\<not> resolves d (world (poll_at d ?q j)) s" by (auto simp: poll_at_Suc)
        qed
        with k k' have "\<exists>k. p' = poll_at d ?q k \<and> clock p' < deadline \<and> resolves d (world p') s
          \<and> (\<forall>j<k. \<not> resolves d (world (poll_at d ?q j)) s)" by (auto simp: poll_at_Suc)
        with IH eq show "pollSelector d s deadline p = (True, p')" by simp
      qed
    qed
  qed
qed


lemma pollSelector_False_iff:
  "pollSelector d s deadline p = (False, p') \<longleftrightarrow>
     (\<exists>k. p' = poll_at d p k \<and> deadline \<le> clock p'
        \<and> (\<forall>j<k. clock (poll_at d p j) < deadline \<and> \<not> resolves d (world (poll_at d p j)) s))"
proof (induction "deadline - clock p" arbitrary: p rule: less_induct)
  case less
  let ?q = "waitForTimeout d 100 p"
  let ?R = "\<lambda>p k. p' = poll_at d p k \<and> deadline \<le> clock p'
        \<and> (\<forall>j<k. clock (poll_at d p j) < deadline \<and> \<not> resolves d (world (poll_at d p j)) s)"
  have zero: "k = 0" if "?R p k" "\<not> (clock p < deadline \<and> \<not> resolves d (world p) s)" for k
  proof (rule ccontr)
    assume "k \<noteq> 0"
    then have "0 < k" by simp
    with that(1) have "clock (poll_at d p 0) < deadline \<and> \<not> resolves d (world (poll_at d p 0)) s" by blast
    with that(2) show False by simp
  qed
  show ?case
  proof (cases "clock p < deadline")
    case False
    then have eq: "pollSelector d s deadline p = (False, p)"
      by (subst pollSelector_unfold) simp
    show ?thesis
    proof
      assume "pollSelector d s deadline p = (False, p')"
      with eq False have "?R p 0" by simp
      then show "\<exists>k. ?R p k" by blast
    next
      assume "\<exists>k. ?R p k"
      then obtain k where k: "?R p k" by blast
      with False zero have "k = 0" by blast
      with k eq show "pollSelector d s deadline p = (False, p')" by simp
    qed
  next
    case True
    show ?thesis
    proof (cases "resolves d (world p) s")
      case r: True
      with True have eq: "pollSelector d s deadline p = (True, p)"
        by (subst pollSelector_unfold) simp
      have "\<not> (\<exists>k. ?R p k)"
      proof
        assume "\<exists>k. ?R p k"
        then obtain k where k: "?R p k" by blast
        with r zero have "k = 0" by blast
        with k True show False by auto
      qed
      with eq show ?thesis by simp
    next
      case r: False
      with True have eq: "pollSelector d s deadline p = pollSelector d s deadline ?q"
        by (subst pollSelector_unfold) simp
      from True have "deadline - clock ?q < deadline - clock p" by auto
      note IH = less.hyps [OF this]
      show ?thesis
      proof
        assume "pollSelector d s deadline p = (False, p')"
        with eq IH obtain k where k: "?R ?q k" by auto
        have "\<forall>j<Suc k. clock (poll_at d p j) < deadline \<and> \<not> resolves d (world (poll_at d p j)) s"
        proof (intro allI impI)
          fix j assume "j < Suc k"
          show "clock (poll_at d p j) < deadline \<and> \<not> resolves d (world (poll_at d p j)) s"
          proof (cases j)
            case 0 with r True show ?thesis by simp
          next
            case (Suc j')
            with \<open>j < Suc k\<close> have "j' < k" by simp
            with k have "clock (poll_at d ?q j') < deadline \<and> \<not> resolves d (world (poll_at d ?q j')) s"
              by blast
            with Suc show ?thesis by (simp add: poll_at_Suc)
          qed
        qed
        moreover from k have "p' = poll_at d p (Suc k)" "deadline \<le> clock p'"
          by (auto simp add: poll_at_Suc simp del: clock_poll_at)
        ultimately have "?R p (Suc k)" by blast
        then show "\<exists>k. ?R p k" by blast
      next
        assume "\<exists>k. ?R p k"
        then obtain k where k: "?R p k" by blast
        have "k \<noteq> 0"
        proof
          assume "k = 0"
          with k True show False by auto
        qed
        then obtain k' where k': "k = Suc k'" by (cases k) auto
        have "\<forall>j<k'. clock (poll_at d ?q j) < deadline \<and> \<not> resolves d (world (poll_at d ?q j)) s"
        proof (intro allI impI)
          fix j assume "j < k'"
          with k' have "Suc j < k" by simp
          with k have "clock (poll_at d p (Suc j)) < deadline \<and> \<not> resolves d (world (poll_at d p (Suc j))) s"
            by blast
          then show "clock (poll_at d ?q j) < deadline \<and> \<not> resolves d (world (poll_at d ?q j)) s"
            by (simp add: poll_at_Suc)
        qed
        moreover from k k' have "p' = poll_at d ?q k'" "deadline \<le> clock p'"
          by (auto simp add: poll_at_Suc simp del: clock_poll_at)
        ultimately have "\<exists>k. ?R ?q k" by blast
        with IH eq show "pollSelector d s deadline p = (False, p')" by simp
      qed
    qed
  qed
qed

lemma trySelectorsSimple_append:
  "trySelectorsSimple d p (xs @ ys) per =
     (case trySelectorsSimple d p xs per of
        (Some s, q) \<Rightarrow> (Some s, q)
      | (None, q) \<Rightarrow> trySelectorsSimple d q ys per)"
  by (induction xs arbitrary: p) (auto split: prod.splits bool.splits option.splits)

lemma trySelectorsSimple_None_iff:
  "fst (trySelectorsSimple d p sels per) = None \<longleftrightarrow>
     (\<forall>xs s ys. sels = xs @ s # ys \<and> s \<noteq> [] \<longrightarrow>
        (let q = snd (trySelectorsSimple d p xs per) in \<not> fst (pollSelector d s (clock q + per) q)))"
proof (induction sels rule: rev_induct)
  case Nil
  then show ?case by simp
next
  case (snoc z zs)
  obtain r q where zs: "trySelectorsSimple d p zs per = (r, q)" by (cases "trySelectorsSimple d p zs per")
  obtain b q' where poll: "pollSelector d z (clock q + per) q = (b, q')" by (cases "pollSelector d z (clock q + per) q")
  have last: "fst (trySelectorsSimple d p (zs @ [z]) per) = None \<longleftrightarrow> r = None \<and> (z = [] \<or> \<not> b)"
    using zs poll by (cases r; cases b) (simp_all add: trySelectorsSimple_append)
  let ?P = "\<lambda>sels. \<forall>xs s ys. sels = xs @ s # ys \<and> s \<noteq> [] \<longrightarrow>
        (let q = snd (trySelectorsSimple d p xs per) in \<not> fst (pollSelector d s (clock q + per) q))"
  have "?P (zs @ [z]) \<longleftrightarrow> ?P zs \<and> (z = [] \<or> \<not> b)"
  proof
    assume P: "?P (zs @ [z])"
    have "?P zs"
    proof (intro allI impI)
      fix xs s ys assume "zs = xs @ s # ys \<and> s \<noteq> []"
      then have "zs @ [z] = xs @ s # (ys @ [z]) \<and> s \<noteq> []" by simp
      with P show "let q = snd (trySelectorsSimple d p xs per) in \<not> fst (pollSelector d s (clock q + per) q)"
        by blast
    qed
    moreover have "z = [] \<or> \<not> b"
    proof (cases "z = []")
      case False
      then have "zs @ [z] = zs @ z # [] \<and> z \<noteq> []" by simp
      with P have "let q = snd (trySelectorsSimple d p zs per) in \<not> fst (pollSelector d z (clock q + per) q)"
        by blast
      with zs poll show ?thesis by simp
    qed simp
    ultimately show "?P zs \<and> (z = [] \<or> \<not> b)" by blast
  next
    assume A: "?P zs \<and> (z = [] \<or> \<not> b)"
    show "?P (zs @ [z])"
    proof (intro allI impI)
      fix xs s ys assume split: "zs @ [z] = xs @ s # ys \<and> s \<noteq> []"
      show "let q = snd (trySelectorsSimple d p xs per) in \<not> fst (pollSelector d s (clock q + per) q)"
      proof (cases ys rule: rev_cases)
        case Nil
        with split have "xs = zs" "s = z" by auto
        with A split zs poll show ?thesis by simp
      next
        case (snoc ys' y)
        with split have "zs = xs @ s # ys'" by simp
        with A split show ?thesis by blast
      qed
    qed
  qed
  with last snoc.IH zs show ?case by simp
qed

text \<open>
  Claim C5 (resolution priority). \<open>trySelectorsSimple\<close> goes through the candidates in
  list order. It returns a candidate \<open>s\<close> exactly when the list splits as \<open>xs @ s # ys\<close>,
  every candidate of \<open>xs\<close> has run out of its budget, and the poll of \<open>s\<close> succeeds: what
  comes after \<open>s\<close> in the list plays no part, however early it would resolve. It returns
  nothing exactly when the poll of every non-empty candidate fails. A poll succeeds at
  the first of the polls, 100 ms apart and before the deadline, at which the element
  exists, is visible and has a bounding box; it fails when the deadline is reached
  without such a poll.
\<close>

theorem resolution_priority:
  "(trySelectorsSimple d p sels per = (Some s, p') \<longleftrightarrow>
      (\<exists>xs ys q. sels = xs @ s # ys \<and> s \<noteq> [] \<and> trySelectorsSimple d p xs per = (None, q)
         \<and> pollSelector d s (clock q + per) q = (True, p')))
   \<and> (fst (trySelectorsSimple d p sels per) = None \<longleftrightarrow>
      (\<forall>xs x ys. sels = xs @ x # ys \<and> x \<noteq> [] \<longrightarrow>
         (let q = snd (trySelectorsSimple d p xs per) in \<not> fst (pollSelector d x (clock q + per) q))))
   \<and> (pollSelector d s deadline q0 = (True, q1) \<longleftrightarrow>
      (\<exists>k. q1 = poll_at d q0 k \<and> clock q1 < deadline \<and> resolves d (world q1) s
         \<and> (\<forall>j<k. \<not> resolves d (world (poll_at d q0 j)) s)))
   \<and> (pollSelector d s deadline q0 = (False, q1) \<longleftrightarrow>
      (\<exists>k. q1 = poll_at d q0 k \<and> deadline \<le> clock q1
         \<and> (\<forall>j<k. clock (poll_at d q0 j) < deadline \<and> \<not> resolves d (world (poll_at d q0 j)) s)))"
  using trySelectorsSimple_Some_iff [of d p sels per s p'] trySelectorsSimple_None_iff [of d p sels per]
    pollSelector_True_iff [of d s deadline q0 q1] pollSelector_False_iff [of d s deadline q0 q1]
  by blast

theorem resolution_priority_witness:
  "trySelectorsSimple (scripted_pw latency_script) demo_page [''#slow'', ''#fast''] 1200
     = (Some ''#slow'', \<lparr>clock = 500, world = \<lparr>elapsed = 500, events = []\<rparr>\<rparr>)
   \<and> (\<exists>xs ys q. [''#slow'', ''#fast''] = xs @ ''#slow'' # ys \<and> ''#slow'' \<noteq> []
         \<and> trySelectorsSimple (scripted_pw latency_script) demo_page xs 1200 = (None, q)
         \<and> pollSelector (scripted_pw latency_script) ''#slow'' (clock q + 1200) q
              = (True, \<lparr>clock = 500, world = \<lparr>elapsed = 500, events = []\<rparr>\<rparr>))"
proof -
  have run: "trySelectorsSimple (scripted_pw latency_script) demo_page [''#slow'', ''#fast''] 1200
     = (Some ''#slow'', \<lparr>clock = 500, world = \<lparr>elapsed = 500, events = []\<rparr>\<rparr>)"
    by (simp add: pollSelector.simps scripted_pw_def latency_script_def demo_page_def
          waitForTimeout_def Let_def)
  have split: "\<exists>xs ys q. [''#slow'', ''#fast''] = xs @ ''#slow'' # ys \<and> ''#slow'' \<noteq> []
         \<and> trySelectorsSimple (scripted_pw latency_script) demo_page xs 1200 = (None, q)
         \<and> pollSelector (scripted_pw latency_script) ''#slow'' (clock q + 1200) q
              = (True, \<lparr>clock = 500, world = \<lparr>elapsed = 500, events = []\<rparr>\<rparr>)"
    by (rule resolution_priority [THEN conjunct1, THEN iffD1, OF run])
  from run split show ?thesis by (rule conjI)
qed

section \<open>Candidate lists\<close>

lemma clickable_resolves: "isSelectorClickable d w s \<Longrightarrow> s \<noteq> [] \<and> resolves d w s"
  by (auto simp: isSelectorClickable_def resolves_def split: if_splits option.splits)

lemma fillable_resolves: "isSelectorFillable d w s \<Longrightarrow> s \<noteq> [] \<and> loc_count d w s \<noteq> 0"
  by (auto simp: isSelectorFillable_def split: if_splits option.splits)

lemma trySelectorsSimple_head:
  "s \<noteq> [] \<Longrightarrow> resolves d (world p) s \<Longrightarrow> 0 < per \<Longrightarrow> trySelectorsSimple d p (s # ss) per = (Some s, p)"
  by (simp add: pollSelector_ready)

lemma fold_push_prefix: "\<exists>rest. fold (\<lambda>s merged. if s \<noteq> [] \<and> s \<notin> set merged then merged @ [s] else merged) orig acc = acc @ rest"
  by (induction orig arbitrary: acc) (auto, metis append.assoc)

lemma find_append: "List.find P (xs @ ys) = (case List.find P xs of Some x \<Rightarrow> Some x | None \<Rightarrow> List.find P ys)"
  by (induction xs) auto

lemma find_fold_push:
  assumes "\<And>s. P s \<Longrightarrow> s \<noteq> []"
  shows "List.find P (fold (\<lambda>s merged. if s \<noteq> [] \<and> s \<notin> set merged then merged @ [s] else merged) orig acc)
     = (case List.find P acc of Some x \<Rightarrow> Some x | None \<Rightarrow> List.find P orig)"
proof (induction orig arbitrary: acc)
  case Nil
  then show ?case by (simp split: option.splits)
next
  case (Cons x xs)
  show ?case
  proof (cases "x \<noteq> [] \<and> x \<notin> set acc")
    case True
    then show ?thesis using Cons [of "acc @ [x]"] by (auto simp: find_append split: option.splits)
  next
    case False
    have "List.find P acc = None \<Longrightarrow> \<not> P x"
      using False assms by (auto simp: find_None_iff)
    then show ?thesis using False Cons [of acc] by (auto split: option.splits)
  qed
qed

lemma filter_find: "filter P xs = (case List.find P xs of None \<Rightarrow> [] | Some x \<Rightarrow> x # tl (filter P xs))"
  by (induction xs) (auto split: option.splits)

lemma mergedSelectors_head:
  "A \<noteq> [] \<Longrightarrow> \<exists>rest. mergedSelectors True (Some A) orig = A # rest"
  using fold_push_prefix [of orig "[A]"] by (auto simp: mergedSelectors_def)

lemma find_declared:
  assumes "\<And>s. P s \<Longrightarrow> s \<noteq> []"
  shows "List.find P (if mergedSelectors su None orig \<noteq> [] then mergedSelectors su None orig else orig)
     = List.find P orig"
  using find_fold_push [of P orig "[]", OF assms] by (auto simp: mergedSelectors_def)

section \<open>One-shot selector memory\<close>

lemma trySelectorsSimple_nonempty:
  "trySelectorsSimple d p sels per = (Some s, p') \<Longrightarrow> s \<noteq> []"
  using trySelectorsSimple_Some_iff [of d p sels per s p'] by blast

lemma execWaitForSelector_memory:
  assumes "execWaitForSelector d a st0 = (Completed (Some A), st)"
  shows "lastSelectorUsed st = Some A \<and> A \<noteq> []"
proof -
  obtain r p1 where t: "trySelectorsSimple d (pg st0) (selectorsOrig a) 1200 = (r, p1)"
    by (cases "trySelectorsSimple d (pg st0) (selectorsOrig a) 1200")
  show ?thesis
  proof (cases r)
    case None
    with t assms show ?thesis by (simp add: execWaitForSelector_def)
  next
    case (Some c)
    with t assms have "c = A" "lastSelectorUsed st = Some A"
      by (auto simp: execWaitForSelector_def split: prod.splits)
    with t Some trySelectorsSimple_nonempty [of d "pg st0" "selectorsOrig a" 1200 c p1]
    show ?thesis by simp
  qed
qed

lemma finishClick_Some:
  "finishClick d a shouldUse remembered1 (Some C) p1 st =
     (case performClick d a C (world p1) of
        (res, w3) \<Rightarrow>
          (res, st\<lparr>pg := p1\<lparr>world := w3\<rparr>,
                  lastSelectorUsed := (if shouldUse \<and> truthy remembered1 \<and> Some C = remembered1 then None else Some C)\<rparr>))"
  by (simp add: finishClick_def clickTextHeuristic_def)

text \<open>The candidates a click resolves, given the memory left by the one-shot check.\<close>

lemma execClick_unfold:
  "execClick d a shouldUse st =
     (let remembered1 = revalidate shouldUse (isSelectorClickable d (world (pg st))) (lastSelectorUsed st);
          merged = mergedSelectors shouldUse remembered1 (selectorsOrig a);
          filtered = filter (\<lambda>s. s \<noteq> [] \<and> isSelectorClickable d (world (pg st)) s)
                       (if merged \<noteq> [] then merged else selectorsOrig a)
      in case List.find (\<lambda>s. s \<noteq> [] \<and> isSelectorClickable d (world (pg st)) s)
                (if merged \<noteq> [] then merged else selectorsOrig a) of
           None \<Rightarrow> (Thrown ClickNoClickable, st\<lparr>lastSelectorUsed := remembered1\<rparr>)
         | Some C \<Rightarrow> finishClick d a shouldUse remembered1 (Some C) (pg st) st)"
proof -
  define remembered1 where "remembered1 = revalidate shouldUse (isSelectorClickable d (world (pg st))) (lastSelectorUsed st)"
  define cands where "cands = (if mergedSelectors shouldUse remembered1 (selectorsOrig a) \<noteq> []
      then mergedSelectors shouldUse remembered1 (selectorsOrig a) else selectorsOrig a)"
  let ?P = "\<lambda>s. s \<noteq> [] \<and> isSelectorClickable d (world (pg st)) s"
  have e: "execClick d a shouldUse st =
      (if filter ?P cands = [] then (Thrown ClickNoClickable, st\<lparr>lastSelectorUsed := remembered1\<rparr>)
       else (case trySelectorsSimple d (pg st) (filter ?P cands) 1200 of
               (chosen0, p1) \<Rightarrow> finishClick d a shouldUse remembered1 chosen0 p1 st))"
    unfolding execClick_def Let_def filterSelectorsByCheck_def remembered1_def cands_def
    by (simp only: option.case)
  have "execClick d a shouldUse st =
      (case List.find ?P cands of
         None \<Rightarrow> (Thrown ClickNoClickable, st\<lparr>lastSelectorUsed := remembered1\<rparr>)
       | Some C \<Rightarrow> finishClick d a shouldUse remembered1 (Some C) (pg st) st)"
  proof (cases "List.find ?P cands")
    case None
    then have "filter ?P cands = []" using filter_find [of ?P cands] by simp
    with None e show ?thesis by simp
  next
    case (Some C)
    then have f: "filter ?P cands = C # tl (filter ?P cands)" using filter_find [of ?P cands] by simp
    from Some have "?P C" by (auto simp: find_Some_iff)
    then have "trySelectorsSimple d (pg st) (C # tl (filter ?P cands)) 1200 = (Some C, pg st)"
      using clickable_resolves [of d "world (pg st)" C] by (intro trySelectorsSimple_head) auto
    with f have "trySelectorsSimple d (pg st) (filter ?P cands) 1200 = (Some C, pg st)" by simp
    moreover from f have "filter ?P cands \<noteq> []" by auto
    ultimately show ?thesis using e Some by simp
  qed
  then show ?thesis
    unfolding Let_def remembered1_def cands_def .
qed

lemma one_shot_click_used:
  assumes "lastSelectorUsed st = Some A" "isSelectorClickable d (world (pg st)) A"
  shows "execClick d a True st =
     (case performClick d a A (world (pg st)) of
        (res, w3) \<Rightarrow> (res, st\<lparr>pg := (pg st)\<lparr>world := w3\<rparr>, lastSelectorUsed := None\<rparr>))"
proof -
  have ne: "A \<noteq> []" using clickable_resolves [OF assms(2)] by simp
  from assms have r: "revalidate True (isSelectorClickable d (world (pg st))) (lastSelectorUsed st) = Some A"
    by (simp add: revalidate_def)
  obtain rest where m: "mergedSelectors True (Some A) (selectorsOrig a) = A # rest"
    using mergedSelectors_head [OF ne, of "selectorsOrig a"] by (elim exE)
  show ?thesis
    unfolding execClick_unfold Let_def r m using assms(2) ne by (simp add: finishClick_Some)
qed

lemma one_shot_click_discarded:
  assumes "lastSelectorUsed st = Some A" "A \<noteq> []" "\<not> isSelectorClickable d (world (pg st)) A"
  shows "execClick d a True st =
     (case List.find (\<lambda>s. s \<noteq> [] \<and> isSelectorClickable d (world (pg st)) s) (selectorsOrig a) of
        None \<Rightarrow> (Thrown ClickNoClickable, st\<lparr>lastSelectorUsed := None\<rparr>)
      | Some C \<Rightarrow>
          (case performClick d a C (world (pg st)) of
             (res, w3) \<Rightarrow> (res, st\<lparr>pg := (pg st)\<lparr>world := w3\<rparr>, lastSelectorUsed := Some C\<rparr>)))"
proof -
  let ?P = "\<lambda>s. s \<noteq> [] \<and> isSelectorClickable d (world (pg st)) s"
  from assms have r: "revalidate True (isSelectorClickable d (world (pg st))) (lastSelectorUsed st) = None"
    by (simp add: revalidate_def)
  have fd: "List.find ?P (if mergedSelectors True None (selectorsOrig a) \<noteq> []
              then mergedSelectors True None (selectorsOrig a) else selectorsOrig a) = List.find ?P (selectorsOrig a)"
    by (rule find_declared) simp
  show ?thesis
    unfolding execClick_unfold Let_def r fd by (simp add: finishClick_Some split: option.splits)
qed

text \<open>
  Claim C1 (one-shot selector memory for Click). After a \<^verbatim>\<open>waitForSelector\<close> action that
  resolved to \<open>A\<close>, the memory holds \<open>A\<close>. If \<open>A\<close> is clickable when the next action, a click,
  starts, the click is performed on \<open>A\<close>, whatever the candidates the click declares, and
  the memory is empty afterwards. If \<open>A\<close> is not clickable, the memory is emptied and the
  click goes to the first clickable candidate \<open>C\<close> among those it declares (the memory
  then holds \<open>C\<close>, the reference used), or fails when it declares none.
\<close>

theorem one_shot_memory_click:
  assumes "a_type pa = WaitForSelector"
    and "execAction d cfg name ai prev pa st0 = (Completed (Some A), st)"
    and "a_type a = Click"
  shows "lastSelectorUsed st = Some A
    \<and> (isSelectorClickable d (world (pg st)) A \<longrightarrow>
         execAction d cfg name (Suc ai) (Some pa) a st =
           (case performClick d a A (world (pg st)) of
              (res, w3) \<Rightarrow> (res, st\<lparr>pg := (pg st)\<lparr>world := w3\<rparr>, lastSelectorUsed := None\<rparr>)))
    \<and> (\<not> isSelectorClickable d (world (pg st)) A \<longrightarrow>
         execAction d cfg name (Suc ai) (Some pa) a st =
           (case List.find (\<lambda>s. s \<noteq> [] \<and> isSelectorClickable d (world (pg st)) s) (selectorsOrig a) of
              None \<Rightarrow> (Thrown ClickNoClickable, st\<lparr>lastSelectorUsed := None\<rparr>)
            | Some C \<Rightarrow>
                (case performClick d a C (world (pg st)) of
                   (res, w3) \<Rightarrow> (res, st\<lparr>pg := (pg st)\<lparr>world := w3\<rparr>, lastSelectorUsed := Some C\<rparr>))))"
proof -
  from assms(1,2) have "execWaitForSelector d pa st0 = (Completed (Some A), st)"
    by (simp add: execAction_def)
  then have mem: "lastSelectorUsed st = Some A" and ne: "A \<noteq> []"
    using execWaitForSelector_memory [of d pa st0 A st] by simp_all
  with assms(1,3) have su: "shouldUseLastSelectorOneShot (Some pa) a (lastSelectorUsed st)"
    by (simp add: shouldUseLastSelectorOneShot_def)
  with assms(3) have e: "execAction d cfg name (Suc ai) (Some pa) a st = execClick d a True st"
    by (simp add: execAction_def)
  show ?thesis
    using mem e one_shot_click_used [OF mem, of d a] one_shot_click_discarded [OF mem ne, of d a]
    by simp
qed

theorem one_shot_memory_click_witness:
  "execAction (scripted_pw memory_script) demo_settings ''c_checkpoint'' 0 None
      (plain_action WaitForSelector [''#new'', ''#other'']) demo_state
     = (Completed (Some ''#new''),
        \<lparr>pg = \<lparr>clock = 0, world = \<lparr>elapsed = 5000, events = []\<rparr>\<rparr>, files = [],
         lastSelectorUsed = Some ''#new''\<rparr>)
   \<and> isSelectorClickable (scripted_pw memory_script) \<lparr>elapsed = 5000, events = []\<rparr> ''#new''
   \<and> execAction (scripted_pw memory_script) demo_settings ''c_checkpoint'' 1
        (Some (plain_action WaitForSelector [''#new'', ''#other''])) (plain_action Click [''#other''])
        \<lparr>pg = \<lparr>clock = 0, world = \<lparr>elapsed = 5000, events = []\<rparr>\<rparr>, files = [],
         lastSelectorUsed = Some ''#new''\<rparr>
     = (Completed (Some ''#new''),
        \<lparr>pg = \<lparr>clock = 0, world = \<lparr>elapsed = 5000, events = [''click #new'']\<rparr>\<rparr>, files = [],
         lastSelectorUsed = None\<rparr>)"
proof -
  let ?d = "scripted_pw memory_script"
  let ?wait = "plain_action WaitForSelector [''#new'', ''#other'']"
  let ?click = "plain_action Click [''#other'']"
  let ?st = "\<lparr>pg = \<lparr>clock = 0, world = \<lparr>elapsed = 5000, events = []\<rparr>\<rparr>, files = [],
         lastSelectorUsed = Some ''#new''\<rparr>"
  have ty: "a_type ?wait = WaitForSelector" "a_type ?click = Click"
    by (simp_all add: plain_action_def)
  have w: "execAction ?d demo_settings ''c_checkpoint'' 0 None ?wait demo_state = (Completed (Some ''#new''), ?st)"
    by (simp add: execAction_def execWaitForSelector_def selectorsOrig_def plain_action_def
          shouldUseLastSelectorOneShot_def scripted_pw_def memory_script_def demo_state_def demo_page_def
          pollSelector.simps timeoutOr_def Let_def)
  have c: "isSelectorClickable ?d \<lparr>elapsed = 5000, events = []\<rparr> ''#new''"
    by code_simp
  from one_shot_memory_click [OF ty(1) w ty(2)] c
  have "execAction ?d demo_settings ''c_checkpoint'' 1 (Some ?wait) ?click ?st =
      (case performClick ?d ?click ''#new'' \<lparr>elapsed = 5000, events = []\<rparr> of
         (res, w3) \<Rightarrow> (res, ?st\<lparr>pg := (pg ?st)\<lparr>world := w3\<rparr>, lastSelectorUsed := None\<rparr>))"
    by simp
  also have "\<dots> = (Completed (Some ''#new''),
        \<lparr>pg = \<lparr>clock = 0, world = \<lparr>elapsed = 5000, events = [''click #new'']\<rparr>\<rparr>, files = [],
         lastSelectorUsed = None\<rparr>)"
    by (simp add: performClick_def plain_action_def scripted_pw_def memory_script_def logged_def timeoutOr_def)
  finally show ?thesis using w c by simp
qed

section \<open>Click: the text fallback\<close>

lemma trim_Nil [simp]: "trim [] = []"
  by (simp add: trim_def)

lemma has_text_nonempty [simp]: "has_text t \<noteq> []"
  by (simp add: has_text_def)

text \<open>
  Claim C7 (click text fallback), as amended. When the candidates of a click did not
  resolve, the locator \<^verbatim>\<open>:has-text("...")\<close> built from the trimmed text of the action,
  quotes removed, is clicked exactly when that trimmed text is not empty, whatever its
  length; if that click succeeds the locator becomes the reference used and is clicked
  as such. Without text, or with blank text, nothing is clicked and the click fails.
\<close>

theorem click_text_fallback:
  "finishClick d a shouldUse remembered None p1 st =
     (case a_text a of
        None \<Rightarrow> (Thrown ClickNoMatch, st\<lparr>pg := p1, lastSelectorUsed := remembered\<rparr>)
      | Some t \<Rightarrow>
          if trim t = [] then (Thrown ClickNoMatch, st\<lparr>pg := p1, lastSelectorUsed := remembered\<rparr>)
          else
            (case page_click d (has_text (strip_quotes (trim t))) (timeoutOr (a_timeoutMs a) 4000) (world p1) of
               (False, w') \<Rightarrow> (Thrown ClickNoMatch, st\<lparr>pg := p1\<lparr>world := w'\<rparr>, lastSelectorUsed := remembered\<rparr>)
             | (True, w') \<Rightarrow>
                 (case performClick d a (has_text (strip_quotes (trim t))) w' of
                    (res, w3) \<Rightarrow>
                      (res, st\<lparr>pg := p1\<lparr>world := w3\<rparr>,
                              lastSelectorUsed :=
                                (if shouldUse then None else Some (has_text (strip_quotes (trim t))))\<rparr>))))"
  by (cases "a_text a")
     (auto simp: finishClick_def clickTextHeuristic_def Let_def split: prod.splits bool.splits)

theorem click_text_fallback_witness:
  "finishClick (scripted_pw ok_script) ((plain_action Click [''#gone''])\<lparr>a_text := Some '' OK now ''\<rparr>)
       False None None demo_page demo_state
     = (Thrown ClickNoMatch,
        \<lparr>pg = \<lparr>clock = 0, world = \<lparr>elapsed = 0, events = [''click '' @ has_text ''OK now'']\<rparr>\<rparr>,
         files = [], lastSelectorUsed = None\<rparr>)"
proof -
  have t: "trim '' OK now '' = ''OK now''"
    by (simp add: trim_def is_space_def)
  have h: "has_text ''OK now'' \<noteq> has_text ''OK''"
    by (simp add: has_text_def)
  show ?thesis
    using click_text_fallback [of "scripted_pw ok_script" "(plain_action Click [''#gone''])\<lparr>a_text := Some '' OK now ''\<rparr>"
            False None demo_page demo_state] h
    by (simp add: t plain_action_def strip_quotes_def scripted_pw_def ok_script_def demo_page_def
          demo_state_def logged_def timeoutOr_def)
qed

text \<open>
  Claim C7 as stated fails: with the two-character text \<^verbatim>\<open>OK\<close> the text locator is
  clicked and the click completes.
\<close>

theorem click_text_fallback_counterexample:
  "length ''OK'' \<le> 2
   \<and> finishClick (scripted_pw ok_script) ok_click False None None demo_page demo_state
     = (Completed (Some (has_text ''OK'')),
        \<lparr>pg = \<lparr>clock = 0,
               world = \<lparr>elapsed = 0, events = [''click '' @ has_text ''OK'', ''click '' @ has_text ''OK'']\<rparr>\<rparr>,
         files = [], lastSelectorUsed = Some (has_text ''OK'')\<rparr>)"
  by code_simp

section \<open>Fill: keyboard fallback and the reference used\<close>

lemma tryFillWithFallback_no_match:
  "\<forall>s \<in> set selectors. s = [] \<or> loc_count d w s = 0 \<Longrightarrow>
   tryFillWithFallback d selectors txt t True tried w =
     (case keyboard_type d txt w of (ok, w') \<Rightarrow> (ok, tried @ filter (\<lambda>s. s \<noteq> []) selectors, w'))"
  by (induction selectors arbitrary: tried) (auto split: prod.splits bool.splits)

lemma mergedSelectors_False: "mergedSelectors False r orig = mergedSelectors False None orig"
  by (simp add: mergedSelectors_def)

lemma execFill_no_fillable:
  assumes "List.find (\<lambda>s. s \<noteq> [] \<and> isSelectorFillable d (world (pg st)) s) (selectorsOrig a) = None"
  shows "execFill d a False st = (Thrown FillNoFillable, st)"
proof -
  let ?P = "\<lambda>s. s \<noteq> [] \<and> isSelectorFillable d (world (pg st)) s"
  let ?cands = "if mergedSelectors False None (selectorsOrig a) \<noteq> []
              then mergedSelectors False None (selectorsOrig a) else selectorsOrig a"
  have r: "revalidate False (isSelectorFillable d (world (pg st))) (lastSelectorUsed st) = lastSelectorUsed st"
    by (simp add: revalidate_def split: option.splits)
  have "List.find ?P ?cands = List.find ?P (selectorsOrig a)"
    by (rule find_declared) simp
  with assms have "filter ?P ?cands = []"
    using filter_find [of ?P ?cands] by simp
  then show ?thesis
    unfolding execFill_def Let_def r filterSelectorsByCheck_def
      mergedSelectors_False [of "lastSelectorUsed st"]
    by (simp only: option.case if_True) simp
qed

text \<open>
  Claim C6 (fill keyboard fallback), as amended. In \<open>tryFillWithFallback\<close>, when no
  candidate matches an element and keyboard fallback is permitted, the text is typed
  into the focused element, and the fill succeeds exactly when the typing does. The
  fill action of the plan runner, however, first requires a fillable candidate: when no
  declared candidate is fillable (in particular when none is declared) and no remembered
  selector is to be reused, it fails with \<^verbatim>\<open>fill: no fillable selector matched\<close> and
  nothing is typed.
\<close>

theorem fill_keyboard_fallback:
  "((\<forall>s \<in> set selectors. s = [] \<or> loc_count d w s = 0) \<longrightarrow>
      tryFillWithFallback d selectors txt t True tried w =
        (case keyboard_type d txt w of (ok, w') \<Rightarrow> (ok, tried @ filter (\<lambda>s. s \<noteq> []) selectors, w')))
   \<and> (List.find (\<lambda>s. s \<noteq> [] \<and> isSelectorFillable d (world (pg st)) s) (selectorsOrig a) = None \<longrightarrow>
      execFill d a False st = (Thrown FillNoFillable, st))"
proof (intro conjI impI)
  assume "\<forall>s \<in> set selectors. s = [] \<or> loc_count d w s = 0"
  then show "tryFillWithFallback d selectors txt t True tried w =
        (case keyboard_type d txt w of (ok, w') \<Rightarrow> (ok, tried @ filter (\<lambda>s. s \<noteq> []) selectors, w'))"
    by (rule tryFillWithFallback_no_match)
next
  assume "List.find (\<lambda>s. s \<noteq> [] \<and> isSelectorFillable d (world (pg st)) s) (selectorsOrig a) = None"
  then show "execFill d a False st = (Thrown FillNoFillable, st)"
    by (rule execFill_no_fillable)
qed

theorem fill_keyboard_fallback_witness:
  "tryFillWithFallback (scripted_pw input_script) [''#missing''] ''hello'' 5000 True [] \<lparr>elapsed = 0, events = []\<rparr>
     = (True, [''#missing''], \<lparr>elapsed = 0, events = [''type hello'']\<rparr>)
   \<and> execFill (scripted_pw input_script) empty_fill False demo_state = (Thrown FillNoFillable, demo_state)"
proof -
  have a: "\<forall>s \<in> set [''#missing'']. s = [] \<or> loc_count (scripted_pw input_script) \<lparr>elapsed = 0, events = []\<rparr> s = 0"
    by (simp add: scripted_pw_def input_script_def)
  have b: "List.find (\<lambda>s. s \<noteq> [] \<and> isSelectorFillable (scripted_pw input_script) (world (pg demo_state)) s)
             (selectorsOrig empty_fill) = None"
    by (simp add: selectorsOrig_def empty_fill_def plain_action_def)
  from fill_keyboard_fallback [of "[''#missing'']" "scripted_pw input_script" "\<lparr>elapsed = 0, events = []\<rparr>"
         "''hello''" 5000 "[]" demo_state empty_fill] a b
  show ?thesis
    by (simp add: scripted_pw_def logged_def)
qed

text \<open>
  Claim C6 as stated fails: a fill without candidates, with keyboard fallback permitted,
  on a page that accepts keystrokes, throws and types nothing.
\<close>

theorem fill_keyboard_fallback_counterexample:
  "selectorsOrig empty_fill = [] \<and> fill_fallback empty_fill \<and> fill_text empty_fill = ''hello''
   \<and> fst (keyboard_type (scripted_pw input_script) ''hello'' (world (pg demo_state)))
   \<and> execAction (scripted_pw input_script) demo_settings ''c_checkpoint'' 0 None empty_fill demo_state
       = (Thrown FillNoFillable, demo_state)"
  by code_simp

lemma finishFill_direct:
  assumes "tryFillWithFallback d filtered (fill_text a) (timeoutOr (a_timeoutMs a) 5000) (fill_fallback a) []
             (world (pg st)) = (True, tried, w1)"
    and "\<not> (shouldUse \<and> truthy remembered1)"
    and "a_selector a = Some (s0 # ss)" "s0 \<noteq> []"
  shows "finishFill d a shouldUse remembered1 merged filtered st =
           (Completed (Some s0), (set_world w1 st)\<lparr>lastSelectorUsed := Some s0\<rparr>)"
  using assms by (auto simp: finishFill_def Let_def)

lemma finishFill_retry:
  assumes "tryFillWithFallback d filtered (fill_text a) (timeoutOr (a_timeoutMs a) 5000) (fill_fallback a) []
             (world (pg st)) = (False, tried, w1)"
    and "\<not> (shouldUse \<and> truthy remembered1)"
    and "a_expected_dialog a = Some e" "e \<noteq> []"
    and "page_waitForSelector d e (timeoutOr (a_dialogTimeoutMs a) 2500) w1 = (appeared, w2)"
    and "trySelectorsSimple d ((pg st)\<lparr>world := w2\<rparr>) (if merged \<noteq> [] then merged else selectorsOrig a) 1000
           = (Some retry, p3)"
    and "tryFillWithFallback d [retry] (fill_text a) (timeoutOr (a_timeoutMs a) 5000) (fill_fallback a) []
           (world p3) = (True, tried', w4)"
  shows "finishFill d a shouldUse remembered1 merged filtered st =
           (Completed (Some retry), st\<lparr>pg := p3\<lparr>world := w4\<rparr>, lastSelectorUsed := Some retry\<rparr>)"
proof -
  have ne: "retry \<noteq> []" using trySelectorsSimple_nonempty [OF assms(6)] .
  with assms(2) have "\<not> (shouldUse \<and> remembered1 = Some retry)" by auto
  with assms show ?thesis
    by (simp add: finishFill_def fillRetry_def set_world_def)
qed

text \<open>
  Claim C9 (reference recorded by a fill). Consider a fill with at least one fillable
  candidate that does not consume a one-shot memory. When the first attempt succeeds,
  the reference reported as used and stored in the memory is the first entry of the
  action's \<^verbatim>\<open>selector\<close> list (given that this entry exists and is not empty), also when
  another candidate received the text. When the first attempt fails and the retry after
  the expected dialog succeeds, the selector found by the retry is reported and stored.
\<close>

theorem fill_used_reference:
  assumes "remembered1 = revalidate shouldUse (isSelectorFillable d (world (pg st))) (lastSelectorUsed st)"
    and "merged = mergedSelectors shouldUse remembered1 (selectorsOrig a)"
    and "filtered = filterSelectorsByCheck (world (pg st)) (if merged \<noteq> [] then merged else selectorsOrig a)
                      (Some (isSelectorFillable d))"
    and "filtered \<noteq> []"
    and "\<not> (shouldUse \<and> truthy remembered1)"
    and "tryFillWithFallback d filtered (fill_text a) (timeoutOr (a_timeoutMs a) 5000) (fill_fallback a) []
           (world (pg st)) = (ok, tried, w1)"
  shows "(ok \<and> a_selector a = Some (s0 # ss) \<and> s0 \<noteq> [] \<longrightarrow>
           execFill d a shouldUse st = (Completed (Some s0), (set_world w1 st)\<lparr>lastSelectorUsed := Some s0\<rparr>))
       \<and> (\<not> ok \<and> a_expected_dialog a = Some e \<and> e \<noteq> []
            \<and> page_waitForSelector d e (timeoutOr (a_dialogTimeoutMs a) 2500) w1 = (appeared, w2)
            \<and> trySelectorsSimple d ((pg st)\<lparr>world := w2\<rparr>) (if merged \<noteq> [] then merged else selectorsOrig a) 1000
                 = (Some retry, p3)
            \<and> tryFillWithFallback d [retry] (fill_text a) (timeoutOr (a_timeoutMs a) 5000) (fill_fallback a) []
                 (world p3) = (True, tried', w4) \<longrightarrow>
           execFill d a shouldUse st =
             (Completed (Some retry), st\<lparr>pg := p3\<lparr>world := w4\<rparr>, lastSelectorUsed := Some retry\<rparr>))"
proof -
  have e: "execFill d a shouldUse st = finishFill d a shouldUse remembered1 merged filtered st"
    using assms(4) unfolding execFill_def Let_def assms(1-3) by simp
  show ?thesis
  proof (intro conjI impI)
    assume "ok \<and> a_selector a = Some (s0 # ss) \<and> s0 \<noteq> []"
    with assms(5,6) show "execFill d a shouldUse st
        = (Completed (Some s0), (set_world w1 st)\<lparr>lastSelectorUsed := Some s0\<rparr>)"
      unfolding e by (intro finishFill_direct) auto
  next
    assume "\<not> ok \<and> a_expected_dialog a = Some e \<and> e \<noteq> []
            \<and> page_waitForSelector d e (timeoutOr (a_dialogTimeoutMs a) 2500) w1 = (appeared, w2)
            \<and> trySelectorsSimple d ((pg st)\<lparr>world := w2\<rparr>) (if merged \<noteq> [] then merged else selectorsOrig a) 1000
                 = (Some retry, p3)
            \<and> tryFillWithFallback d [retry] (fill_text a) (timeoutOr (a_timeoutMs a) 5000) (fill_fallback a) []
                 (world p3) = (True, tried', w4)"
    with assms(5,6) show "execFill d a shouldUse st =
             (Completed (Some retry), st\<lparr>pg := p3\<lparr>world := w4\<rparr>, lastSelectorUsed := Some retry\<rparr>)"
      unfolding e by (intro finishFill_retry [where e = e and appeared = appeared and ?w2.0 = w2 and ?w1.0 = w1]) auto
  qed
qed

theorem fill_used_reference_witness:
  "execFill (scripted_pw input_script) alpha_fill False demo_state
     = (Completed (Some ''#missing''),
        \<lparr>pg = \<lparr>clock = 0, world = \<lparr>elapsed = 0, events = [''fill input#real Alpha'']\<rparr>\<rparr>,
         files = [], lastSelectorUsed = Some ''#missing''\<rparr>)
   \<and> execFill late_fill_pw late_fill False demo_state
     = (Completed (Some ''input#real''),
        \<lparr>pg = \<lparr>clock = 0,
               world = \<lparr>elapsed = 2500, events = [''fill input#real Alpha'', ''fill input#real Alpha'']\<rparr>\<rparr>,
         files = [], lastSelectorUsed = Some ''input#real''\<rparr>)"
proof -
  let ?d = "scripted_pw input_script"
  have r: "None = revalidate False (isSelectorFillable ?d (world (pg demo_state))) (lastSelectorUsed demo_state)"
    by code_simp
  have m: "[''#missing'', ''input#real''] = mergedSelectors False None (selectorsOrig alpha_fill)"
    by code_simp
  have f: "[''input#real''] = filterSelectorsByCheck (world (pg demo_state))
             (if [''#missing'', ''input#real''] \<noteq> [] then [''#missing'', ''input#real''] else selectorsOrig alpha_fill)
             (Some (isSelectorFillable ?d))"
    by code_simp
  have t: "tryFillWithFallback ?d [''input#real''] (fill_text alpha_fill) (timeoutOr (a_timeoutMs alpha_fill) 5000)
             (fill_fallback alpha_fill) [] (world (pg demo_state))
           = (True, [''input#real''], \<lparr>elapsed = 0, events = [''fill input#real Alpha'']\<rparr>)"
    by code_simp
  have s: "a_selector alpha_fill = Some (''#missing'' # [''input#real''])"
    by (simp add: alpha_fill_def plain_action_def)
  have direct: "execFill ?d alpha_fill False demo_state
     = (Completed (Some ''#missing''),
        (set_world \<lparr>elapsed = 0, events = [''fill input#real Alpha'']\<rparr> demo_state)\<lparr>lastSelectorUsed := Some ''#missing''\<rparr>)"
    using fill_used_reference [OF r m f _ _ t, THEN conjunct1, of "''#missing''" "[''input#real'']"] s
    by simp
  have r2: "None = revalidate False (isSelectorFillable late_fill_pw (world (pg demo_state))) (lastSelectorUsed demo_state)"
    by code_simp
  have m2: "[''input#real''] = mergedSelectors False None (selectorsOrig late_fill)"
    by code_simp
  have f2: "[''input#real''] = filterSelectorsByCheck (world (pg demo_state))
             (if [''input#real''] \<noteq> [] then [''input#real''] else selectorsOrig late_fill)
             (Some (isSelectorFillable late_fill_pw))"
    by code_simp
  have t2: "tryFillWithFallback late_fill_pw [''input#real''] (fill_text late_fill) (timeoutOr (a_timeoutMs late_fill) 5000)
             (fill_fallback late_fill) [] (world (pg demo_state))
           = (False, [''input#real''], \<lparr>elapsed = 0, events = [''fill input#real Alpha'']\<rparr>)"
    by code_simp
  have e2: "a_expected_dialog late_fill = Some ''role=dialog''"
    by (simp add: late_fill_def plain_action_def)
  have w2: "page_waitForSelector late_fill_pw ''role=dialog'' (timeoutOr (a_dialogTimeoutMs late_fill) 2500)
              \<lparr>elapsed = 0, events = [''fill input#real Alpha'']\<rparr>
            = (False, \<lparr>elapsed = 2500, events = [''fill input#real Alpha'']\<rparr>)"
    by code_simp
  have y2: "trySelectorsSimple late_fill_pw ((pg demo_state)\<lparr>world := \<lparr>elapsed = 2500, events = [''fill input#real Alpha'']\<rparr>\<rparr>)
              (if [''input#real''] \<noteq> [] then [''input#real''] else selectorsOrig late_fill) 1000
            = (Some ''input#real'', \<lparr>clock = 0, world = \<lparr>elapsed = 2500, events = [''fill input#real Alpha'']\<rparr>\<rparr>)"
    by code_simp
  have z2: "tryFillWithFallback late_fill_pw [''input#real''] (fill_text late_fill) (timeoutOr (a_timeoutMs late_fill) 5000)
             (fill_fallback late_fill) [] (world \<lparr>clock = 0, world = \<lparr>elapsed = 2500, events = [''fill input#real Alpha'']\<rparr>\<rparr>)
           = (True, [''input#real''], \<lparr>elapsed = 2500, events = [''fill input#real Alpha'', ''fill input#real Alpha'']\<rparr>)"
    by code_simp
  have retry: "execFill late_fill_pw late_fill False demo_state
     = (Completed (Some ''input#real''),
        demo_state\<lparr>pg := \<lparr>clock = 0, world = \<lparr>elapsed = 2500, events = [''fill input#real Alpha'']\<rparr>\<rparr>
                          \<lparr>world := \<lparr>elapsed = 2500, events = [''fill input#real Alpha'', ''fill input#real Alpha'']\<rparr>\<rparr>,
                   lastSelectorUsed := Some ''input#real''\<rparr>)"
    by (rule fill_used_reference [OF r2 m2 f2 _ _ t2, THEN conjunct2, THEN mp,
              OF _ _ conjI [OF _ conjI [OF e2 conjI [OF _ conjI [OF w2 conjI [OF y2 z2]]]]]])
       simp_all
  from direct retry show ?thesis
    by (simp add: set_world_def demo_state_def demo_page_def)
qed

section \<open>Recovery acceptance\<close>

lemma tryCandidate_click_fill:
  assumes "a_type a = Click \<or> a_type a = Fill" "a_expected_dialog a = Some e" "e \<noteq> []"
  shows "tryCandidate d a c w =
     (case sideEffect d a c w of
        (False, w1) \<Rightarrow> (False, w1)
      | (True, w1) \<Rightarrow> page_waitForSelector d e (timeoutOr (a_dialogTimeoutMs a) 2500) w1)"
proof -
  have v: "verifyExpectedDialog d a w1 = page_waitForSelector d e (timeoutOr (a_dialogTimeoutMs a) 2500) w1" for w1
    using assms(2,3) by (simp add: verifyExpectedDialog_def)
  from assms(1) show ?thesis
  proof
    assume c: "a_type a = Click"
    obtain ok w1 where "page_click d c (timeoutOr (a_timeoutMs a) 5000) w = (ok, w1)"
      by (cases "page_click d c (timeoutOr (a_timeoutMs a) 5000) w")
    with c show ?thesis
      by (cases ok) (simp_all add: tryCandidate_def sideEffect_def v)
  next
    assume f: "a_type a = Fill"
    obtain ok tried w1 where "tryFillWithFallback d [c] (fill_text a) (timeoutOr (a_timeoutMs a) 5000)
        (fill_fallback a) [] w = (ok, tried, w1)"
      by (cases "tryFillWithFallback d [c] (fill_text a) (timeoutOr (a_timeoutMs a) 5000) (fill_fallback a) [] w")
    with f show ?thesis
      by (cases ok) (simp_all add: tryCandidate_def sideEffect_def v del: tryFillWithFallback.simps)
  qed
qed

lemma recovery_accepts_verified:
  assumes "a_type a = Click \<or> a_type a = Fill" "a_expected_dialog a = Some e" "e \<noteq> []"
  shows "tryRecoveryCandidates d a cs st = (True, st') \<Longrightarrow>
     \<exists>c w0 w1. c \<in> set cs \<and> lastSelectorUsed st' = Some c \<and> sideEffect d a c w0 = (True, w1)
        \<and> page_waitForSelector d e (timeoutOr (a_dialogTimeoutMs a) 2500) w1 = (True, world (pg st'))"
proof (induction cs arbitrary: st)
  case Nil
  then show ?case by simp
next
  case (Cons c cs)
  obtain ok w1 where se: "sideEffect d a c (world (pg st)) = (ok, w1)"
    by (cases "sideEffect d a c (world (pg st))")
  obtain ap w2 where wt: "page_waitForSelector d e (timeoutOr (a_dialogTimeoutMs a) 2500) w1 = (ap, w2)"
    by (cases "page_waitForSelector d e (timeoutOr (a_dialogTimeoutMs a) 2500) w1")
  show ?case
  proof (cases "ok \<and> ap")
    case True
    with se wt Cons.prems have "st' = (set_world w2 st)\<lparr>lastSelectorUsed := Some c\<rparr>"
      by (auto simp: tryCandidate_click_fill [OF assms])
    with True se wt have "c \<in> set (c # cs) \<and> lastSelectorUsed st' = Some c
        \<and> sideEffect d a c (world (pg st)) = (True, w1)
        \<and> page_waitForSelector d e (timeoutOr (a_dialogTimeoutMs a) 2500) w1 = (True, world (pg st'))"
      by (simp add: set_world_def)
    then show ?thesis by (intro exI)
  next
    case False
    then obtain wf where "tryCandidate d a c (world (pg st)) = (False, wf)"
      using se wt by (cases ok) (auto simp: tryCandidate_click_fill [OF assms])
    with Cons.prems have "tryRecoveryCandidates d a cs (set_world wf st) = (True, st')" by simp
    from Cons.IH [OF this] obtain c' w0 w1' where
      "c' \<in> set cs" "lastSelectorUsed st' = Some c'" "sideEffect d a c' w0 = (True, w1')"
      "page_waitForSelector d e (timeoutOr (a_dialogTimeoutMs a) 2500) w1' = (True, world (pg st'))"
      by (elim exE conjE)
    then have "c' \<in> set (c # cs) \<and> lastSelectorUsed st' = Some c' \<and> sideEffect d a c' w0 = (True, w1')
        \<and> page_waitForSelector d e (timeoutOr (a_dialogTimeoutMs a) 2500) w1' = (True, world (pg st'))"
      by simp
    then show ?thesis by (intro exI)
  qed
qed

lemma recovery_keeps_memory:
  "tryRecoveryCandidates d a cs st = (False, st') \<Longrightarrow> lastSelectorUsed st' = lastSelectorUsed st"
proof (induction cs arbitrary: st)
  case Nil
  then show ?case by simp
next
  case (Cons c cs)
  obtain ok w1 where t: "tryCandidate d a c (world (pg st)) = (ok, w1)"
    by (cases "tryCandidate d a c (world (pg st))")
  with Cons.prems have "tryRecoveryCandidates d a cs (set_world w1 st) = (False, st')"
    by (cases ok) auto
  from Cons.IH [OF this] show ?case by (simp add: set_world_def)
qed

lemma recoverAction_recovered:
  assumes "recoverAction d planner cfg a st = (True, st')"
  shows "\<exists>rs. askPlannerForRecovery
               (planner (if instruction cfg \<noteq> [] then instruction cfg else ''Perform task'')
                  (world (waitForTimeout d 800 (pg st))) a) = Some rs
          \<and> tryRecoveryCandidates d a
                (orderCandidates a (recoveryCandidates d a (world (waitForTimeout d 800 (pg st))) rs))
                (st\<lparr>pg := waitForTimeout d 800 (pg st)\<rparr>) = (True, st')"
proof -
  let ?ans = "askPlannerForRecovery
               (planner (if instruction cfg \<noteq> [] then instruction cfg else ''Perform task'')
                  (world (waitForTimeout d 800 (pg st))) a)"
  show ?thesis
  proof (cases ?ans)
    case None
    with assms show ?thesis by (simp add: recoverAction_def Let_def)
  next
    case (Some rs)
    with assms have "tryRecoveryCandidates d a
                (orderCandidates a (recoveryCandidates d a (world (waitForTimeout d 800 (pg st))) rs))
                (st\<lparr>pg := waitForTimeout d 800 (pg st)\<rparr>) = (True, st')"
      by (simp add: recoverAction_def Let_def split: if_splits)
    with Some show ?thesis by simp
  qed
qed

lemma set_orderCandidates: "set (orderCandidates a cs) = set cs"
  by (simp add: orderCandidates_def Let_def split: option.splits)

lemma set_recoveryCandidates: "set (recoveryCandidates d a w rs) \<subseteq> set rs"
  by (auto simp: recoveryCandidates_def filterSelectorsByCheck_def)

text \<open>
  Claim C2 (recovery acceptance). For a failing click or fill that declares an expected
  dialog: a recovery candidate whose click or fill succeeds but whose expected dialog
  does not appear is passed over, and the remaining candidates are tried from the page
  state so reached; a recovery that succeeds leaves in the memory a candidate whose side
  effect succeeded and whose expected dialog appeared, one of those the planner
  returned; a recovery that fails leaves the memory as it was.
\<close>

theorem recovery_acceptance:
  assumes "a_type a = Click \<or> a_type a = Fill" "a_expected_dialog a = Some e" "e \<noteq> []"
  shows "(sideEffect d a c (world (pg st)) = (True, w1)
            \<and> page_waitForSelector d e (timeoutOr (a_dialogTimeoutMs a) 2500) w1 = (False, w2) \<longrightarrow>
          tryRecoveryCandidates d a (c # cs) st = tryRecoveryCandidates d a cs (set_world w2 st))
     \<and> (tryRecoveryCandidates d a cs st = (True, st') \<longrightarrow>
          (\<exists>c' w0 w1'. c' \<in> set cs \<and> lastSelectorUsed st' = Some c' \<and> sideEffect d a c' w0 = (True, w1')
             \<and> page_waitForSelector d e (timeoutOr (a_dialogTimeoutMs a) 2500) w1' = (True, world (pg st'))))
     \<and> (tryRecoveryCandidates d a cs st = (False, st') \<longrightarrow> lastSelectorUsed st' = lastSelectorUsed st)
     \<and> (recoverAction d planner cfg a st = (True, st') \<longrightarrow>
          (\<exists>rs c' w0 w1'.
             askPlannerForRecovery
               (planner (if instruction cfg \<noteq> [] then instruction cfg else ''Perform task'')
                  (world (waitForTimeout d 800 (pg st))) a) = Some rs
             \<and> c' \<in> set rs \<and> lastSelectorUsed st' = Some c' \<and> sideEffect d a c' w0 = (True, w1')
             \<and> page_waitForSelector d e (timeoutOr (a_dialogTimeoutMs a) 2500) w1' = (True, world (pg st'))))"
proof (intro conjI impI)
  assume "sideEffect d a c (world (pg st)) = (True, w1)
            \<and> page_waitForSelector d e (timeoutOr (a_dialogTimeoutMs a) 2500) w1 = (False, w2)"
  then have "tryCandidate d a c (world (pg st)) = (False, w2)"
    by (simp add: tryCandidate_click_fill [OF assms])
  then show "tryRecoveryCandidates d a (c # cs) st = tryRecoveryCandidates d a cs (set_world w2 st)"
    by simp
next
  assume "tryRecoveryCandidates d a cs st = (True, st')"
  then show "\<exists>c' w0 w1'. c' \<in> set cs \<and> lastSelectorUsed st' = Some c' \<and> sideEffect d a c' w0 = (True, w1')
             \<and> page_waitForSelector d e (timeoutOr (a_dialogTimeoutMs a) 2500) w1' = (True, world (pg st'))"
    by (rule recovery_accepts_verified [OF assms])
next
  assume "tryRecoveryCandidates d a cs st = (False, st')"
  then show "lastSelectorUsed st' = lastSelectorUsed st"
    by (rule recovery_keeps_memory)
next
  let ?p = "waitForTimeout d 800 (pg st)"
  assume "recoverAction d planner cfg a st = (True, st')"
  from recoverAction_recovered [OF this] obtain rs where
    rs: "askPlannerForRecovery
               (planner (if instruction cfg \<noteq> [] then instruction cfg else ''Perform task'') (world ?p) a) = Some rs"
    and t: "tryRecoveryCandidates d a (orderCandidates a (recoveryCandidates d a (world ?p) rs)) (st\<lparr>pg := ?p\<rparr>)
              = (True, st')"
    by (elim exE conjE)
  from recovery_accepts_verified [OF assms t] obtain c' w0 w1' where
    c: "c' \<in> set (orderCandidates a (recoveryCandidates d a (world ?p) rs))"
    and rest: "lastSelectorUsed st' = Some c'" "sideEffect d a c' w0 = (True, w1')"
      "page_waitForSelector d e (timeoutOr (a_dialogTimeoutMs a) 2500) w1' = (True, world (pg st'))"
    by (elim exE conjE)
  from c have "c' \<in> set rs"
    using set_recoveryCandidates [of d a "world ?p" rs] by (auto simp: set_orderCandidates)
  with rs rest have "askPlannerForRecovery
               (planner (if instruction cfg \<noteq> [] then instruction cfg else ''Perform task'') (world ?p) a) = Some rs
             \<and> c' \<in> set rs \<and> lastSelectorUsed st' = Some c' \<and> sideEffect d a c' w0 = (True, w1')
             \<and> page_waitForSelector d e (timeoutOr (a_dialogTimeoutMs a) 2500) w1' = (True, world (pg st'))"
    by simp
  then show "\<exists>rs c' w0 w1'.
             askPlannerForRecovery
               (planner (if instruction cfg \<noteq> [] then instruction cfg else ''Perform task'') (world ?p) a) = Some rs
             \<and> c' \<in> set rs \<and> lastSelectorUsed st' = Some c' \<and> sideEffect d a c' w0 = (True, w1')
             \<and> page_waitForSelector d e (timeoutOr (a_dialogTimeoutMs a) 2500) w1' = (True, world (pg st'))"
    by (intro exI)
qed

theorem recovery_acceptance_witness:
  "tryRecoveryCandidates (scripted_pw dialog_script) dialog_click [''#wrong'', ''#right''] demo_state
     = (True, \<lparr>pg = \<lparr>clock = 0, world = \<lparr>elapsed = 5000, events = [''click #wrong'', ''click #right'']\<rparr>\<rparr>,
               files = [], lastSelectorUsed = Some ''#right''\<rparr>)"
proof -
  let ?d = "scripted_pw dialog_script"
  have ty: "a_type dialog_click = Click \<or> a_type dialog_click = Fill"
    and ed: "a_expected_dialog dialog_click = Some ''role=dialog''" and ne: "''role=dialog'' \<noteq> []"
    by (simp_all add: dialog_click_def plain_action_def)
  have se: "sideEffect ?d dialog_click ''#wrong'' (world (pg demo_state))
              = (True, \<lparr>elapsed = 0, events = [''click #wrong'']\<rparr>)"
    by code_simp
  have wt: "page_waitForSelector ?d ''role=dialog'' (timeoutOr (a_dialogTimeoutMs dialog_click) 2500)
              \<lparr>elapsed = 0, events = [''click #wrong'']\<rparr>
            = (False, \<lparr>elapsed = 2500, events = [''click #wrong'']\<rparr>)"
    by code_simp
  have "tryRecoveryCandidates ?d dialog_click (''#wrong'' # [''#right'']) demo_state
      = tryRecoveryCandidates ?d dialog_click [''#right'']
          (set_world \<lparr>elapsed = 2500, events = [''click #wrong'']\<rparr> demo_state)"
    by (rule recovery_acceptance [OF ty ed ne, THEN conjunct1, THEN mp, OF conjI [OF se wt]])
  also have "\<dots> = (True, \<lparr>pg = \<lparr>clock = 0, world = \<lparr>elapsed = 5000, events = [''click #wrong'', ''click #right'']\<rparr>\<rparr>,
               files = [], lastSelectorUsed = Some ''#right''\<rparr>)"
    by code_simp
  finally show ?thesis .
qed

section \<open>The files written by a run\<close>

lemma failure_docs_append [simp]: "failure_docs (xs @ ys) = failure_docs xs @ failure_docs ys"
  by (induction xs rule: failure_docs.induct) simp_all

lemma failure_docs_capture: "list_all (capture_entry dir) new \<Longrightarrow> failure_docs new = []"
  by (induction new rule: failure_docs.induct) simp_all

lemma saveCheckpoint_files:
  "\<exists>new m. files (saveCheckpoint d od tid n i a s c st) = files st @ new @ [(path_join [od, tid, n], ''meta.json'', Meta m)]
     \<and> (new = [] \<or> new = [(path_join [od, tid, n], shotFilename i n (clock (pg st)), Png)])"
proof -
  obtain wf w1 where a: "waitForFirst d (verificationCandidates a s)
      (case a of None \<Rightarrow> 2500 | Some a \<Rightarrow> (case a_dialogTimeoutMs a of None \<Rightarrow> 2500 | Some t \<Rightarrow> t))
      (world (pg st)) = (wf, w1)"
    by (cases "waitForFirst d (verificationCandidates a s)
      (case a of None \<Rightarrow> 2500 | Some a \<Rightarrow> (case a_dialogTimeoutMs a of None \<Rightarrow> 2500 | Some t \<Rightarrow> t))
      (world (pg st))")
  obtain ok w2 where b: "page_screenshot d w1 = (ok, w2)"
    by (cases "page_screenshot d w1")
  show ?thesis
    by (cases ok) (simp_all add: saveCheckpoint_def Let_def a b writeFileSync_def set_world_def)
qed

lemma files_finishClick: "files (snd (finishClick d a su r c p st)) = files st"
  by (simp add: finishClick_def Let_def split: prod.splits option.splits)

lemma files_execClick: "files (snd (execClick d a su st)) = files st"
  by (simp add: execClick_def Let_def files_finishClick split: prod.splits)

lemma files_fillRetry: "files (snd (fillRetry d a su rs tried st)) = files st"
  by (simp add: fillRetry_def split: option.splits prod.splits bool.splits del: tryFillWithFallback.simps)

lemma files_finishFill: "files (snd (finishFill d a su r m f st)) = files st"
  by (simp add: finishFill_def Let_def files_fillRetry set_world_def
        split: prod.splits bool.splits del: tryFillWithFallback.simps)

lemma files_execFill: "files (snd (execFill d a su st)) = files st"
  by (simp add: execFill_def Let_def files_finishFill)

lemma files_execWaitForSelector: "files (snd (execWaitForSelector d a st)) = files st"
  by (simp add: execWaitForSelector_def split: prod.splits option.splits)

lemma files_execGoto: "files (snd (execGoto d a st)) = files st"
  by (simp add: execGoto_def set_world_def split: prod.splits option.splits bool.splits)

lemma files_tryRecoveryCandidates: "files (snd (tryRecoveryCandidates d a cs st)) = files st"
  by (induction cs arbitrary: st) (simp_all add: set_world_def split: prod.splits bool.splits)

lemma files_recoverAction: "files (snd (recoverAction d planner cfg a st)) = files st"
  by (simp add: recoverAction_def Let_def files_tryRecoveryCandidates split: option.splits)

lemma execAction_files:
  "\<exists>new. files (snd (execAction d cfg name ai prev a st)) = files st @ new
     \<and> list_all (capture_entry (path_join [outDir cfg, taskId cfg, captureName a name])) new
     \<and> (a_type a \<noteq> Screenshot \<longrightarrow> new = [])"
proof (cases "a_type a")
  case Screenshot
  obtain new m where
    "files (saveCheckpoint d (outDir cfg) (taskId cfg) (captureName a name) ai (Some a) (lastSelectorUsed st)
        (plannerConfidence cfg) st)
      = files st @ new @ [(path_join [outDir cfg, taskId cfg, captureName a name], ''meta.json'', Meta m)]"
    "new = [] \<or> new = [(path_join [outDir cfg, taskId cfg, captureName a name],
        shotFilename ai (captureName a name) (clock (pg st)), Png)]"
    using saveCheckpoint_files [of d "outDir cfg" "taskId cfg" "captureName a name" ai "Some a"
      "lastSelectorUsed st" "plannerConfidence cfg" st] by (elim exE conjE)
  with Screenshot have "files (snd (execAction d cfg name ai prev a st))
      = files st @ (new @ [(path_join [outDir cfg, taskId cfg, captureName a name], ''meta.json'', Meta m)])
     \<and> list_all (capture_entry (path_join [outDir cfg, taskId cfg, captureName a name]))
          (new @ [(path_join [outDir cfg, taskId cfg, captureName a name], ''meta.json'', Meta m)])
     \<and> (a_type a \<noteq> Screenshot \<longrightarrow>
          new @ [(path_join [outDir cfg, taskId cfg, captureName a name], ''meta.json'', Meta m)] = [])"
    by (auto simp: execAction_def)
  then show ?thesis by (intro exI)
qed (simp_all add: execAction_def files_execClick files_execFill files_execWaitForSelector files_execGoto)

lemma capture_checkpoint_entry:
  "capture_entry dir e \<Longrightarrow> dir \<in> set (path_join [outDir cfg, taskId cfg, name] # capture_dirs cfg name acts)
     \<Longrightarrow> checkpoint_entry cfg name acts e"
proof -
  assume a: "capture_entry dir e" "dir \<in> set (path_join [outDir cfg, taskId cfg, name] # capture_dirs cfg name acts)"
  obtain dir' fname content where e: "e = (dir', fname, content)" by (cases e)
  with a show ?thesis by (cases content) simp_all
qed

lemma capture_dirs_Cons: "set (capture_dirs cfg name acts) \<subseteq> set (capture_dirs cfg name (x # acts))"
  by (cases x) auto

lemma checkpoint_entry_Cons:
  "checkpoint_entry cfg name acts e \<Longrightarrow> checkpoint_entry cfg name (x # acts) e"
proof -
  assume a: "checkpoint_entry cfg name acts e"
  obtain dir' fname content where e: "e = (dir', fname, content)" by (cases e)
  with a capture_dirs_Cons [of cfg name acts x] show ?thesis by (cases content) auto
qed

lemma capture_dirs_head:
  "a_type a = Screenshot \<Longrightarrow>
     path_join [outDir cfg, taskId cfg, captureName a name] \<in> set (capture_dirs cfg name (Some a # acts))"
  by simp

lemma writes_capturesI:
  "fs' = fs @ new \<Longrightarrow> list_all (checkpoint_entry cfg name acts) new \<Longrightarrow> failure_docs new = []
     \<Longrightarrow> writes_captures cfg name acts fs fs'"
  by (simp add: writes_captures_def)

lemma writes_capturesD:
  "writes_captures cfg name acts fs fs' \<Longrightarrow>
     \<exists>new. fs' = fs @ new \<and> list_all (checkpoint_entry cfg name acts) new \<and> failure_docs new = []"
proof -
  assume a: "writes_captures cfg name acts fs fs'"
  then have "fs' = fs @ drop (length fs) fs'"
    by (metis append_take_drop_id writes_captures_def)
  with a have "fs' = fs @ drop (length fs) fs' \<and> list_all (checkpoint_entry cfg name acts) (drop (length fs) fs')
      \<and> failure_docs (drop (length fs) fs') = []"
    by (simp add: writes_captures_def)
  then show ?thesis by (intro exI)
qed

lemma writes_captures_refl: "writes_captures cfg name acts fs fs"
  by (simp add: writes_captures_def)

lemma writes_captures_trans:
  assumes "writes_captures cfg name acts fs1 fs2" "writes_captures cfg name acts fs2 fs3"
  shows "writes_captures cfg name acts fs1 fs3"
proof -
  from writes_capturesD [OF assms(1)] obtain n1 where
    n1: "fs2 = fs1 @ n1" "list_all (checkpoint_entry cfg name acts) n1" "failure_docs n1 = []"
    by (elim exE conjE)
  from writes_capturesD [OF assms(2)] obtain n2 where
    n2: "fs3 = fs2 @ n2" "list_all (checkpoint_entry cfg name acts) n2" "failure_docs n2 = []"
    by (elim exE conjE)
  show ?thesis
    by (rule writes_capturesI [of _ _ "n1 @ n2"]) (simp_all add: n1 n2)
qed

lemma writes_captures_Cons:
  assumes "writes_captures cfg name acts fs fs'"
  shows "writes_captures cfg name (x # acts) fs fs'"
proof -
  from writes_capturesD [OF assms] obtain new where
    n: "fs' = fs @ new" "list_all (checkpoint_entry cfg name acts) new" "failure_docs new = []"
    by (elim exE conjE)
  from n(2) have "list_all (checkpoint_entry cfg name (x # acts)) new"
    by (simp add: list_all_iff checkpoint_entry_Cons)
  with n show ?thesis by (intro writes_capturesI)
qed

lemma execAction_writes:
  assumes "execAction d cfg name ai prev a st = (out, st1)"
  shows "writes_captures cfg name (Some a # acts) (files st) (files st1)"
proof -
  let ?dir = "path_join [outDir cfg, taskId cfg, captureName a name]"
  from execAction_files [of d cfg name ai prev a st] assms obtain new where
    n: "files st1 = files st @ new" "list_all (capture_entry ?dir) new" "a_type a \<noteq> Screenshot \<longrightarrow> new = []"
    by auto
  have "list_all (checkpoint_entry cfg name (Some a # acts)) new"
  proof (cases "a_type a = Screenshot")
    case True
    then have "?dir \<in> set (path_join [outDir cfg, taskId cfg, name] # capture_dirs cfg name (Some a # acts))"
      by simp
    then have "\<And>e. capture_entry ?dir e \<Longrightarrow> checkpoint_entry cfg name (Some a # acts) e"
      by (rule capture_checkpoint_entry [rotated])
    with n(2) show ?thesis
      unfolding list_all_iff by blast
  next
    case False
    with n(3) show ?thesis by simp
  qed
  moreover from n(2) have "failure_docs new = []" by (rule failure_docs_capture)
  ultimately show ?thesis using n(1) by (intro writes_capturesI)
qed

lemma recoverAction_writes:
  assumes "recoverAction d planner cfg a st = (ok, st1)"
  shows "files st1 = files st"
  using files_recoverAction [of d planner cfg a st] assms by simp

lemma runActions_result:
  "runActions d planner cfg name prev ai acts st = (res, st') \<Longrightarrow>
     (res = None \<longrightarrow> writes_captures cfg name acts (files st) (files st'))
   \<and> (\<forall>e. res = Some e \<longrightarrow>
        (\<exists>i a err prev' s0 s1 st2. i < length acts \<and> acts ! i = Some a
           \<and> e = ExecutorAborted name (ai + i) err
           \<and> execAction d cfg name (ai + i) prev' a s0 = (Thrown err, s1)
           \<and> recoverAction d planner cfg a s1 = (False, st2)
           \<and> st' = aborted d cfg name (ai + i) a err st2
           \<and> writes_captures cfg name acts (files st) (files st2)))"
proof (induction acts arbitrary: prev ai st)
  case Nil
  then show ?case by (auto simp: writes_captures_refl)
next
  case (Cons x acts)
  let ?Abort = "\<lambda>acts ai st e. \<exists>i a err prev' s0 s1 st2. i < length acts \<and> acts ! i = Some a
           \<and> e = ExecutorAborted name (ai + i) err
           \<and> execAction d cfg name (ai + i) prev' a s0 = (Thrown err, s1)
           \<and> recoverAction d planner cfg a s1 = (False, st2)
           \<and> st' = aborted d cfg name (ai + i) a err st2
           \<and> writes_captures cfg name acts (files st) (files st2)"
  have shift: "?Abort (x # acts) ai st e"
    if "?Abort acts (Suc ai) sm e" "writes_captures cfg name (x # acts) (files st) (files sm)" for sm e
  proof -
    from that(1) obtain i a err prev' s0 s1 st2 where
      *: "i < length acts" "acts ! i = Some a" "e = ExecutorAborted name (Suc ai + i) err"
         "execAction d cfg name (Suc ai + i) prev' a s0 = (Thrown err, s1)"
         "recoverAction d planner cfg a s1 = (False, st2)"
         "st' = aborted d cfg name (Suc ai + i) a err st2"
         "writes_captures cfg name acts (files sm) (files st2)"
      by (elim exE conjE)
    from *(7) have "writes_captures cfg name (x # acts) (files sm) (files st2)"
      by (rule writes_captures_Cons)
    with that(2) have "writes_captures cfg name (x # acts) (files st) (files st2)"
      by (rule writes_captures_trans)
    with * have "Suc i < length (x # acts) \<and> (x # acts) ! Suc i = Some a
           \<and> e = ExecutorAborted name (ai + Suc i) err
           \<and> execAction d cfg name (ai + Suc i) prev' a s0 = (Thrown err, s1)
           \<and> recoverAction d planner cfg a s1 = (False, st2)
           \<and> st' = aborted d cfg name (ai + Suc i) a err st2
           \<and> writes_captures cfg name (x # acts) (files st) (files st2)"
      by simp
    then show ?thesis by (intro exI)
  qed
  have continue: "(res = None \<longrightarrow> writes_captures cfg name (x # acts) (files st) (files st'))
      \<and> (\<forall>e. res = Some e \<longrightarrow> ?Abort (x # acts) ai st e)"
    if run: "runActions d planner cfg name p (Suc ai) acts sm = (res, st')"
      and w: "writes_captures cfg name (x # acts) (files st) (files sm)" for p sm
  proof (intro conjI impI allI)
    assume "res = None"
    with Cons.IH [OF run] have "writes_captures cfg name acts (files sm) (files st')" by simp
    then have "writes_captures cfg name (x # acts) (files sm) (files st')" by (rule writes_captures_Cons)
    with w show "writes_captures cfg name (x # acts) (files st) (files st')" by (rule writes_captures_trans)
  next
    fix e assume "res = Some e"
    with Cons.IH [OF run] have "?Abort acts (Suc ai) sm e" by simp
    then show "?Abort (x # acts) ai st e" using w by (rule shift)
  qed
  show ?case
  proof (cases x)
    case None
    with Cons.prems have "runActions d planner cfg name None (Suc ai) acts st = (res, st')" by simp
    then show ?thesis by (rule continue) (rule writes_captures_refl)
  next
    case (Some a)
    obtain out st1 where ex: "execAction d cfg name ai prev a st = (out, st1)"
      by (cases "execAction d cfg name ai prev a st")
    from execAction_writes [OF ex] Some
    have w1: "writes_captures cfg name (x # acts) (files st) (files st1)" by simp
    show ?thesis
    proof (cases out)
      case (Completed c)
      with Some ex Cons.prems have "runActions d planner cfg name (Some a) (Suc ai) acts st1 = (res, st')"
        by simp
      then show ?thesis using w1 by (rule continue)
    next
      case (Thrown err)
      obtain ok st2 where rec: "recoverAction d planner cfg a st1 = (ok, st2)"
        by (cases "recoverAction d planner cfg a st1")
      from recoverAction_writes [OF rec] w1
      have w2: "writes_captures cfg name (x # acts) (files st) (files st2)" by simp
      show ?thesis
      proof (cases ok)
        case True
        with Some ex Thrown rec Cons.prems
        have "runActions d planner cfg name (Some a) (Suc ai) acts st2 = (res, st')" by simp
        then show ?thesis using w2 by (rule continue)
      next
        case False
        with Some ex Thrown rec Cons.prems
        have r: "res = Some (ExecutorAborted name ai err)" and s: "st' = aborted d cfg name ai a err st2"
          by (simp_all add: aborted_def writeFileSync_def)
        from Some ex Thrown rec False w2 s
        have "0 < length (x # acts) \<and> (x # acts) ! 0 = Some a
           \<and> ExecutorAborted name ai err = ExecutorAborted name (ai + 0) err
           \<and> execAction d cfg name (ai + 0) prev a st = (Thrown err, st1)
           \<and> recoverAction d planner cfg a st1 = (False, st2)
           \<and> st' = aborted d cfg name (ai + 0) a err st2
           \<and> writes_captures cfg name (x # acts) (files st) (files st2)"
          by simp
        then have "?Abort (x # acts) ai st (ExecutorAborted name ai err)" by (intro exI)
        with r show ?thesis by simp
      qed
    qed
  qed
qed

lemma implicitCapture_skip:
  "\<not> capture_due (files st) (path_join [outDir cfg, taskId cfg, name]) \<Longrightarrow>
     implicitCapture d cfg name acts st = st"
  by (auto simp: implicitCapture_def capture_due_def Let_def)

lemma implicitCapture_due:
  assumes "capture_due (files st) (path_join [outDir cfg, taskId cfg, name])"
  shows "\<exists>shots m t. files (implicitCapture d cfg name acts st)
           = files st @ shots @ [(path_join [outDir cfg, taskId cfg, name], ''meta.json'', Meta m),
                                 (path_join [outDir cfg, taskId cfg, name], ''.screenshot_saved'', Marker t)]
         \<and> (shots = [] \<or> shots = [(path_join [outDir cfg, taskId cfg, name],
                 shotFilename (length acts - 1) name (clock (pg st)), Png)])"
proof -
  let ?dir = "path_join [outDir cfg, taskId cfg, name]"
  let ?st1 = "saveCheckpoint d (outDir cfg) (taskId cfg) name (length acts - 1)
                (if acts \<noteq> [] then last acts else None) (lastSelectorUsed st) (plannerConfidence cfg) st"
  obtain shots m where
    s: "files ?st1 = files st @ shots @ [(?dir, ''meta.json'', Meta m)]"
       "shots = [] \<or> shots = [(?dir, shotFilename (length acts - 1) name (clock (pg st)), Png)]"
    using saveCheckpoint_files [of d "outDir cfg" "taskId cfg" name "length acts - 1"
      "if acts \<noteq> [] then last acts else None" "lastSelectorUsed st" "plannerConfidence cfg" st]
    by (elim exE conjE)
  from assms have "implicitCapture d cfg name acts st
      = ?st1\<lparr>files := writeFileSync ?dir ''.screenshot_saved'' (Marker (clock (pg ?st1))) (files ?st1)\<rparr>"
    by (simp add: implicitCapture_def capture_due_def Let_def)
  with s have "files (implicitCapture d cfg name acts st)
           = files st @ shots @ [(?dir, ''meta.json'', Meta m), (?dir, ''.screenshot_saved'', Marker (clock (pg ?st1)))]
         \<and> (shots = [] \<or> shots = [(?dir, shotFilename (length acts - 1) name (clock (pg st)), Png)])"
    by (simp add: writeFileSync_def)
  then show ?thesis by (intro exI)
qed

lemma implicitCapture_writes:
  "writes_captures cfg name acts (files st) (files (implicitCapture d cfg name acts st))"
proof (cases "capture_due (files st) (path_join [outDir cfg, taskId cfg, name])")
  case False
  then show ?thesis by (simp add: implicitCapture_skip writes_captures_refl)
next
  case True
  let ?dir = "path_join [outDir cfg, taskId cfg, name]"
  from implicitCapture_due [OF True, of d acts] obtain shots m t where
    s: "files (implicitCapture d cfg name acts st)
          = files st @ shots @ [(?dir, ''meta.json'', Meta m), (?dir, ''.screenshot_saved'', Marker t)]"
       "shots = [] \<or> shots = [(?dir, shotFilename (length acts - 1) name (clock (pg st)), Png)]"
    by (elim exE conjE)
  from s(2) show ?thesis
    by (intro writes_capturesI [of _ _ "shots @ [(?dir, ''meta.json'', Meta m), (?dir, ''.screenshot_saved'', Marker t)]"])
       (auto simp: s(1))
qed

lemma runCheckpoint_unfold:
  "runCheckpoint d planner cfg ck c st =
     (case runActions d planner cfg (checkpointDirName ck c) None 0 (action_sequence c)
             (st\<lparr>lastSelectorUsed := None\<rparr>) of
        (Some err, st1) \<Rightarrow> (Some err, st1)
      | (None, st1) \<Rightarrow> (None, implicitCapture d cfg (checkpointDirName ck c) (action_sequence c) st1))"
  by (simp add: runCheckpoint_def Let_def)

lemma runCheckpoint_ok:
  assumes "runCheckpoint d planner cfg ck c st = (None, st')"
  shows "writes_captures cfg (checkpointDirName ck c) (action_sequence c) (files st) (files st')"
proof -
  let ?name = "checkpointDirName ck c"
  obtain r st1 where run: "runActions d planner cfg ?name None 0 (action_sequence c) (st\<lparr>lastSelectorUsed := None\<rparr>) = (r, st1)"
    by (cases "runActions d planner cfg ?name None 0 (action_sequence c) (st\<lparr>lastSelectorUsed := None\<rparr>)")
  with assms have r: "r = None" and s: "st' = implicitCapture d cfg ?name (action_sequence c) st1"
    by (auto simp: runCheckpoint_unfold split: option.splits)
  from runActions_result [OF run] r
  have "writes_captures cfg ?name (action_sequence c) (files st) (files st1)" by simp
  moreover have "writes_captures cfg ?name (action_sequence c) (files st1) (files st')"
    unfolding s by (rule implicitCapture_writes)
  ultimately show ?thesis by (rule writes_captures_trans)
qed

lemma runCheckpoint_abort:
  assumes "runCheckpoint d planner cfg ck c st = (Some e, st')"
  shows "\<exists>i a err prev' s0 s1 st2. i < length (action_sequence c) \<and> action_sequence c ! i = Some a
           \<and> e = ExecutorAborted (checkpointDirName ck c) i err
           \<and> execAction d cfg (checkpointDirName ck c) i prev' a s0 = (Thrown err, s1)
           \<and> recoverAction d planner cfg a s1 = (False, st2)
           \<and> st' = aborted d cfg (checkpointDirName ck c) i a err st2
           \<and> writes_captures cfg (checkpointDirName ck c) (action_sequence c) (files st) (files st2)"
proof -
  let ?name = "checkpointDirName ck c"
  obtain r st1 where run: "runActions d planner cfg ?name None 0 (action_sequence c) (st\<lparr>lastSelectorUsed := None\<rparr>) = (r, st1)"
    by (cases "runActions d planner cfg ?name None 0 (action_sequence c) (st\<lparr>lastSelectorUsed := None\<rparr>)")
  with assms have r: "r = Some e" and s: "st1 = st'"
    by (auto simp: runCheckpoint_unfold split: option.splits)
  from runActions_result [OF run] r s show ?thesis by simp
qed

lemma runCheckpoints_append:
  "runCheckpoints d planner cfg ck (xs @ ys) st =
     (case runCheckpoints d planner cfg ck xs st of
        (Some e, s) \<Rightarrow> (Some e, s)
      | (None, s) \<Rightarrow> runCheckpoints d planner cfg (ck + length xs) ys s)"
  by (induction xs arbitrary: ck st) (auto split: prod.splits option.splits)

lemma runCheckpoints_ok:
  "runCheckpoints d planner cfg ck cks st = (None, st') \<Longrightarrow>
     \<exists>new. files st' = files st @ new \<and> failure_docs new = []"
proof (induction cks arbitrary: ck st)
  case Nil
  then show ?case by simp
next
  case (Cons c cks)
  obtain r st1 where one: "runCheckpoint d planner cfg ck c st = (r, st1)"
    by (cases "runCheckpoint d planner cfg ck c st")
  with Cons.prems have r: "r = None" and rest: "runCheckpoints d planner cfg (Suc ck) cks st1 = (None, st')"
    by (auto split: option.splits)
  from one r have "writes_captures cfg (checkpointDirName ck c) (action_sequence c) (files st) (files st1)"
    by (intro runCheckpoint_ok) simp
  from writes_capturesD [OF this] obtain n1 where n1: "files st1 = files st @ n1" "failure_docs n1 = []"
    by (elim exE conjE)
  from Cons.IH [OF rest] obtain n2 where n2: "files st' = files st1 @ n2" "failure_docs n2 = []"
    by (elim exE conjE)
  from n1 n2 have "files st' = files st @ (n1 @ n2) \<and> failure_docs (n1 @ n2) = []" by simp
  then show ?case by (intro exI)
qed

lemma runCheckpoints_abort:
  "runCheckpoints d planner cfg ck cks st = (Some e, st') \<Longrightarrow>
     \<exists>cs1 c cs2 st1. cks = cs1 @ c # cs2 \<and> runCheckpoints d planner cfg ck cs1 st = (None, st1)
        \<and> runCheckpoint d planner cfg (ck + length cs1) c st1 = (Some e, st')"
proof (induction cks arbitrary: ck st)
  case Nil
  then show ?case by simp
next
  case (Cons c cks)
  obtain r st1 where one: "runCheckpoint d planner cfg ck c st = (r, st1)"
    by (cases "runCheckpoint d planner cfg ck c st")
  show ?case
  proof (cases r)
    case (Some e1)
    with one Cons.prems have "e1 = e" "st1 = st'" by simp_all
    with one Some have "c # cks = [] @ c # cks \<and> runCheckpoints d planner cfg ck [] st = (None, st)
        \<and> runCheckpoint d planner cfg (ck + length ([] :: checkpoint list)) c st = (Some e, st')"
      by simp
    then show ?thesis by (intro exI)
  next
    case None
    with one Cons.prems have rest: "runCheckpoints d planner cfg (Suc ck) cks st1 = (Some e, st')" by simp
    from Cons.IH [OF rest] obtain cs1 c' cs2 s1 where
      *: "cks = cs1 @ c' # cs2" "runCheckpoints d planner cfg (Suc ck) cs1 st1 = (None, s1)"
         "runCheckpoint d planner cfg (Suc ck + length cs1) c' s1 = (Some e, st')"
      by (elim exE conjE)
    with one None have "c # cks = (c # cs1) @ c' # cs2 \<and> runCheckpoints d planner cfg ck (c # cs1) st = (None, s1)
        \<and> runCheckpoint d planner cfg (ck + length (c # cs1)) c' s1 = (Some e, st')"
      by simp
    then show ?thesis by (intro exI)
  qed
qed

lemma runCheckpoints_later:
  assumes "runCheckpoints d planner cfg ck cs1 st = (None, st1)"
    and "runCheckpoint d planner cfg (ck + length cs1) c st1 = (Some e, st')"
  shows "runCheckpoints d planner cfg ck (cs1 @ c # cs2) st = (Some e, st')"
  using assms by (simp add: runCheckpoints_append)

lemma failure_docs_aborted:
  "failure_docs (files (aborted d cfg name ai a err st))
     = failure_docs (files st) @ [failureDoc d cfg name ai a err st]"
  by (simp add: aborted_def)

section \<open>Abort containment\<close>

lemma recoverAction_no_candidates:
  "askPlannerForRecovery
     (planner (if instruction cfg \<noteq> [] then instruction cfg else ''Perform task'')
        (world (waitForTimeout d 800 (pg s1))) a) = None \<Longrightarrow>
   recoverAction d planner cfg a s1 = (False, s1\<lparr>pg := waitForTimeout d 800 (pg s1)\<rparr>)"
  by (simp add: recoverAction_def Let_def)

lemma execute_abort:
  assumes "executeCheckpointedPlan d planner plan opts st = (Inl e, st')" "e \<noteq> NoCheckpoints"
  shows "runCheckpoints d planner (resolveSettings plan opts) 0 (planCheckpoints plan) st = (Some e, st')"
  using assms
  by (auto simp: executeCheckpointedPlan_def Let_def split: if_splits prod.splits option.splits)

lemma execute_later:
  assumes "runCheckpoints d planner (resolveSettings plan opts) 0 (cs1 @ c # cs2') st = (Some e, st')"
  shows "executeCheckpointedPlan d planner (plan\<lparr>p_checkpoints := Some (cs1 @ c # cs2')\<rparr>) opts st = (Inl e, st')"
proof -
  have "resolveSettings (plan\<lparr>p_checkpoints := Some (cs1 @ c # cs2')\<rparr>) opts = resolveSettings plan opts"
    by (simp add: resolveSettings_def)
  moreover have "planCheckpoints (plan\<lparr>p_checkpoints := Some (cs1 @ c # cs2')\<rparr>) = cs1 @ c # cs2'"
    by (simp add: planCheckpoints_def)
  ultimately show ?thesis using assms
    by (simp add: executeCheckpointedPlan_def Let_def)
qed

lemma runActions_append:
  "runActions d planner cfg name prev ai (xs @ ys) st =
     (case runActions d planner cfg name prev ai xs st of
        (Some e, s) \<Rightarrow> (Some e, s)
      | (None, s) \<Rightarrow>
          runActions d planner cfg name (if xs = [] then prev else last xs) (ai + length xs) ys s)"
proof (induction xs arbitrary: prev ai st)
  case Nil
  then show ?case by simp
next
  case (Cons x xs)
  have l: "(if x # xs = [] then prev else last (x # xs)) = (if xs = [] then x else last xs)"
    by simp
  show ?case
  proof (cases x)
    case None
    with Cons [of None "Suc ai" st] show ?thesis by (simp split: prod.splits option.splits)
  next
    case (Some a)
    obtain out st1 where ex: "execAction d cfg name ai prev a st = (out, st1)"
      by (cases "execAction d cfg name ai prev a st")
    show ?thesis
    proof (cases out)
      case (Completed c)
      with Some ex Cons [of "Some a" "Suc ai" st1] show ?thesis
        by (simp split: prod.splits option.splits)
    next
      case (Thrown err)
      obtain ok st2 where rec: "recoverAction d planner cfg a st1 = (ok, st2)"
        by (cases "recoverAction d planner cfg a st1")
      show ?thesis
      proof (cases ok)
        case True
        with Some ex Thrown rec Cons [of "Some a" "Suc ai" st2] show ?thesis
          by (simp split: prod.splits option.splits)
      next
        case False
        with Some ex Thrown rec show ?thesis by simp
      qed
    qed
  qed
qed

lemma execute_forward:
  assumes split: "planCheckpoints plan = cs1 @ c # cs2"
    and before: "runCheckpoints d planner (resolveSettings plan opts) 0 cs1 st = (None, st1)"
    and seq: "action_sequence c = pre @ Some a # rest"
    and pre: "runActions d planner (resolveSettings plan opts) (checkpointDirName (length cs1) c) None 0 pre
                (st1\<lparr>lastSelectorUsed := None\<rparr>) = (None, s0)"
    and ex: "execAction d (resolveSettings plan opts) (checkpointDirName (length cs1) c) (length pre)
                (if pre = [] then None else last pre) a s0 = (Thrown err, s1)"
    and rec: "recoverAction d planner (resolveSettings plan opts) a s1 = (False, s2)"
  shows "executeCheckpointedPlan d planner plan opts st
           = (Inl (ExecutorAborted (checkpointDirName (length cs1) c) (length pre) err),
              aborted d (resolveSettings plan opts) (checkpointDirName (length cs1) c) (length pre) a err s2)"
proof -
  let ?cfg = "resolveSettings plan opts"
  let ?name = "checkpointDirName (length cs1) c"
  let ?e = "ExecutorAborted ?name (length pre) err"
  let ?s = "aborted d ?cfg ?name (length pre) a err s2"
  have "runActions d planner ?cfg ?name (if pre = [] then None else last pre) (0 + length pre)
          (Some a # rest) s0 = (Some ?e, ?s)"
    using ex rec by (simp add: aborted_def writeFileSync_def)
  with pre have "runActions d planner ?cfg ?name None 0 (pre @ Some a # rest) (st1\<lparr>lastSelectorUsed := None\<rparr>)
      = (Some ?e, ?s)"
    by (simp only: runActions_append prod.case option.case)
  with seq have "runCheckpoint d planner ?cfg (0 + length cs1) c st1 = (Some ?e, ?s)"
    by (simp add: runCheckpoint_unfold)
  with before have "runCheckpoints d planner ?cfg 0 (cs1 @ c # cs2) st = (Some ?e, ?s)"
    by (rule runCheckpoints_later)
  with split show ?thesis
    by (simp add: executeCheckpointedPlan_def Let_def)
qed

text \<open>
  Claim C3 (abort containment). An action that throws and whose recovery does not
  succeed (in particular when the recovery request yields no candidates) aborts the
  run. Whenever the run of a plan with checkpoints ends with an error, the plan splits
  into the checkpoints before the failing one, the failing checkpoint \<open>c\<close> and the later
  ones; an action \<open>b\<close> at index \<open>i\<close> of \<open>c\<close> threw and was not recovered; the error names the
  directory of \<open>c\<close> and the index \<open>i\<close>; the final state is the state after the failed
  recovery with one file added, the failure document with the task, the checkpoint,
  the index, the action, the error, the URL and the time; no other failure document
  was written during the run; and the result is the same whatever the later
  checkpoints are, none of their actions being executed. Conversely, when the
  checkpoints before \<open>c\<close> complete, the actions of \<open>c\<close> before \<open>a\<close> complete, \<open>a\<close> throws and its
  recovery does not succeed, the run of the plan returns the error naming \<open>c\<close> and the
  index of \<open>a\<close>, in the state after the failed recovery with the failure document added,
  whatever follows \<open>a\<close> in \<open>c\<close> and whatever the later checkpoints are.
\<close>

theorem abort_containment:
  "(execAction d cfg name ai prev a s0 = (Thrown err, s1) \<and> recoverAction d planner cfg a s1 = (False, s2) \<longrightarrow>
      runActions d planner cfg name prev ai (Some a # rest) s0
        = (Some (ExecutorAborted name ai err), aborted d cfg name ai a err s2))
   \<and> (askPlannerForRecovery
         (planner (if instruction cfg \<noteq> [] then instruction cfg else ''Perform task'')
            (world (waitForTimeout d 800 (pg s1))) a) = None \<longrightarrow>
      recoverAction d planner cfg a s1 = (False, s1\<lparr>pg := waitForTimeout d 800 (pg s1)\<rparr>))
   \<and> (executeCheckpointedPlan d planner plan opts st = (Inl e, st') \<and> e \<noteq> NoCheckpoints \<longrightarrow>
      (\<exists>cs1 c cs2 i b err' prev' t0 t1 t2.
          planCheckpoints plan = cs1 @ c # cs2
          \<and> i < length (action_sequence c) \<and> action_sequence c ! i = Some b
          \<and> execAction d (resolveSettings plan opts) (checkpointDirName (length cs1) c) i prev' b t0 = (Thrown err', t1)
          \<and> recoverAction d planner (resolveSettings plan opts) b t1 = (False, t2)
          \<and> e = ExecutorAborted (checkpointDirName (length cs1) c) i err'
          \<and> st' = aborted d (resolveSettings plan opts) (checkpointDirName (length cs1) c) i b err' t2
          \<and> failure_docs (files st') = failure_docs (files st) @
                [\<lparr>f_task_id = taskId (resolveSettings plan opts),
                  f_checkpoint = checkpointDirName (length cs1) c,
                  f_action_index = i, f_action = b, f_error = err',
                  f_url = page_url d (world (pg t2)), f_timestamp = clock (pg t2)\<rparr>]
          \<and> (\<forall>cs2'. executeCheckpointedPlan d planner (plan\<lparr>p_checkpoints := Some (cs1 @ c # cs2')\<rparr>) opts st
                       = (Inl e, st'))))
   \<and> (planCheckpoints plan = ds1 @ dc # ds2
        \<and> runCheckpoints d planner (resolveSettings plan opts) 0 ds1 st = (None, u1)
        \<and> action_sequence dc = pre @ Some fa # post
        \<and> runActions d planner (resolveSettings plan opts) (checkpointDirName (length ds1) dc) None 0 pre
             (u1\<lparr>lastSelectorUsed := None\<rparr>) = (None, u2)
        \<and> execAction d (resolveSettings plan opts) (checkpointDirName (length ds1) dc) (length pre)
             (if pre = [] then None else last pre) fa u2 = (Thrown ferr, u3)
        \<and> recoverAction d planner (resolveSettings plan opts) fa u3 = (False, u4) \<longrightarrow>
      executeCheckpointedPlan d planner plan opts st
        = (Inl (ExecutorAborted (checkpointDirName (length ds1) dc) (length pre) ferr),
           aborted d (resolveSettings plan opts) (checkpointDirName (length ds1) dc) (length pre) fa ferr u4))"
proof (intro conjI impI)
  assume "execAction d cfg name ai prev a s0 = (Thrown err, s1) \<and> recoverAction d planner cfg a s1 = (False, s2)"
  then show "runActions d planner cfg name prev ai (Some a # rest) s0
        = (Some (ExecutorAborted name ai err), aborted d cfg name ai a err s2)"
    by (simp add: aborted_def writeFileSync_def)
next
  assume "askPlannerForRecovery
         (planner (if instruction cfg \<noteq> [] then instruction cfg else ''Perform task'')
            (world (waitForTimeout d 800 (pg s1))) a) = None"
  then show "recoverAction d planner cfg a s1 = (False, s1\<lparr>pg := waitForTimeout d 800 (pg s1)\<rparr>)"
    by (rule recoverAction_no_candidates)
next
  let ?cfg = "resolveSettings plan opts"
  assume a: "executeCheckpointedPlan d planner plan opts st = (Inl e, st') \<and> e \<noteq> NoCheckpoints"
  then have run: "runCheckpoints d planner ?cfg 0 (planCheckpoints plan) st = (Some e, st')"
    using execute_abort [of d planner plan opts st e st'] by simp
  from runCheckpoints_abort [OF run] obtain cs1 c cs2 st1 where
    split: "planCheckpoints plan = cs1 @ c # cs2"
    and before: "runCheckpoints d planner ?cfg 0 cs1 st = (None, st1)"
    and at: "runCheckpoint d planner ?cfg (0 + length cs1) c st1 = (Some e, st')"
    by (elim exE conjE)
  let ?name = "checkpointDirName (length cs1) c"
  from runCheckpoint_abort [OF at] obtain i b err' prev' t0 t1 t2 where
    ab: "i < length (action_sequence c)" "action_sequence c ! i = Some b"
        "e = ExecutorAborted ?name i err'"
        "execAction d ?cfg ?name i prev' b t0 = (Thrown err', t1)"
        "recoverAction d planner ?cfg b t1 = (False, t2)"
        "st' = aborted d ?cfg ?name i b err' t2"
    and w: "writes_captures ?cfg ?name (action_sequence c) (files st1) (files t2)"
    by (elim exE conjE) simp
  from runCheckpoints_ok [OF before] obtain n1 where n1: "files st1 = files st @ n1" "failure_docs n1 = []"
    by (elim exE conjE)
  from writes_capturesD [OF w] obtain n2 where n2: "files t2 = files st1 @ n2" "failure_docs n2 = []"
    by (elim exE conjE)
  from n1 n2 have "failure_docs (files t2) = failure_docs (files st)" by simp
  with ab(6) have fd: "failure_docs (files st') = failure_docs (files st) @
                [\<lparr>f_task_id = taskId ?cfg, f_checkpoint = ?name,
                  f_action_index = i, f_action = b, f_error = err',
                  f_url = page_url d (world (pg t2)), f_timestamp = clock (pg t2)\<rparr>]"
    by (simp add: failure_docs_aborted failureDoc_def)
  have later: "\<forall>cs2'. executeCheckpointedPlan d planner (plan\<lparr>p_checkpoints := Some (cs1 @ c # cs2')\<rparr>) opts st
                       = (Inl e, st')"
  proof
    fix cs2'
    from before at have "runCheckpoints d planner ?cfg 0 (cs1 @ c # cs2') st = (Some e, st')"
      by (rule runCheckpoints_later)
    then show "executeCheckpointedPlan d planner (plan\<lparr>p_checkpoints := Some (cs1 @ c # cs2')\<rparr>) opts st
                       = (Inl e, st')"
      by (rule execute_later)
  qed
  from split ab fd later
  have "planCheckpoints plan = cs1 @ c # cs2
          \<and> i < length (action_sequence c) \<and> action_sequence c ! i = Some b
          \<and> execAction d ?cfg ?name i prev' b t0 = (Thrown err', t1)
          \<and> recoverAction d planner ?cfg b t1 = (False, t2)
          \<and> e = ExecutorAborted ?name i err'
          \<and> st' = aborted d ?cfg ?name i b err' t2
          \<and> failure_docs (files st') = failure_docs (files st) @
                [\<lparr>f_task_id = taskId ?cfg, f_checkpoint = ?name,
                  f_action_index = i, f_action = b, f_error = err',
                  f_url = page_url d (world (pg t2)), f_timestamp = clock (pg t2)\<rparr>]
          \<and> (\<forall>cs2'. executeCheckpointedPlan d planner (plan\<lparr>p_checkpoints := Some (cs1 @ c # cs2')\<rparr>) opts st
                       = (Inl e, st'))"
    by simp
  then show "\<exists>cs1 c cs2 i b err' prev' t0 t1 t2.
          planCheckpoints plan = cs1 @ c # cs2
          \<and> i < length (action_sequence c) \<and> action_sequence c ! i = Some b
          \<and> execAction d ?cfg (checkpointDirName (length cs1) c) i prev' b t0 = (Thrown err', t1)
          \<and> recoverAction d planner ?cfg b t1 = (False, t2)
          \<and> e = ExecutorAborted (checkpointDirName (length cs1) c) i err'
          \<and> st' = aborted d ?cfg (checkpointDirName (length cs1) c) i b err' t2
          \<and> failure_docs (files st') = failure_docs (files st) @
                [\<lparr>f_task_id = taskId ?cfg,
                  f_checkpoint = checkpointDirName (length cs1) c,
                  f_action_index = i, f_action = b, f_error = err',
                  f_url = page_url d (world (pg t2)), f_timestamp = clock (pg t2)\<rparr>]
          \<and> (\<forall>cs2'. executeCheckpointedPlan d planner (plan\<lparr>p_checkpoints := Some (cs1 @ c # cs2')\<rparr>) opts st
                       = (Inl e, st'))"
    by (intro exI)
next
  assume "planCheckpoints plan = ds1 @ dc # ds2
        \<and> runCheckpoints d planner (resolveSettings plan opts) 0 ds1 st = (None, u1)
        \<and> action_sequence dc = pre @ Some fa # post
        \<and> runActions d planner (resolveSettings plan opts) (checkpointDirName (length ds1) dc) None 0 pre
             (u1\<lparr>lastSelectorUsed := None\<rparr>) = (None, u2)
        \<and> execAction d (resolveSettings plan opts) (checkpointDirName (length ds1) dc) (length pre)
             (if pre = [] then None else last pre) fa u2 = (Thrown ferr, u3)
        \<and> recoverAction d planner (resolveSettings plan opts) fa u3 = (False, u4)"
  then show "executeCheckpointedPlan d planner plan opts st
        = (Inl (ExecutorAborted (checkpointDirName (length ds1) dc) (length pre) ferr),
           aborted d (resolveSettings plan opts) (checkpointDirName (length ds1) dc) (length pre) fa ferr u4)"
    by (intro execute_forward [where ?cs2.0 = ds2 and rest = post and ?s0.0 = u2 and ?s1.0 = u3 and ?st1.0 = u1])
       simp_all
qed

theorem abort_containment_witness:
  "executeCheckpointedPlan (scripted_pw empty_script) no_planner abort_plan no_options demo_state
     = (Inl (ExecutorAborted ''first_checkpoint'' 0 ClickNoClickable),
        \<lparr>pg = \<lparr>clock = 800, world = \<lparr>elapsed = 800, events = []\<rparr>\<rparr>,
      files = [(''outputs/task/first_checkpoint'', ''failure.json'',
         Failure \<lparr>f_task_id = ''task'', f_checkpoint = ''first_checkpoint'', f_action_index = 0,
                  f_action = plain_action Click [''#gone''], f_error = ClickNoClickable,
                  f_url = ''https://example.test'', f_timestamp = 800\<rparr>)],
      lastSelectorUsed = None\<rparr>)
   \<and> (let e = ExecutorAborted ''first_checkpoint'' 0 ClickNoClickable;
           s = \<lparr>pg = \<lparr>clock = 800, world = \<lparr>elapsed = 800, events = []\<rparr>\<rparr>,
      files = [(''outputs/task/first_checkpoint'', ''failure.json'',
         Failure \<lparr>f_task_id = ''task'', f_checkpoint = ''first_checkpoint'', f_action_index = 0,
                  f_action = plain_action Click [''#gone''], f_error = ClickNoClickable,
                  f_url = ''https://example.test'', f_timestamp = 800\<rparr>)],
      lastSelectorUsed = None\<rparr>
       in (\<exists>cs1 c cs2 i b err' prev' t0 t1 t2.
          planCheckpoints abort_plan = cs1 @ c # cs2
          \<and> i < length (action_sequence c) \<and> action_sequence c ! i = Some b
          \<and> execAction (scripted_pw empty_script) (resolveSettings abort_plan no_options) (checkpointDirName (length cs1) c) i prev' b t0 = (Thrown err', t1)
          \<and> recoverAction (scripted_pw empty_script) no_planner (resolveSettings abort_plan no_options) b t1 = (False, t2)
          \<and> e = ExecutorAborted (checkpointDirName (length cs1) c) i err'
          \<and> s = aborted (scripted_pw empty_script) (resolveSettings abort_plan no_options) (checkpointDirName (length cs1) c) i b err' t2
          \<and> failure_docs (files s) = failure_docs (files demo_state) @
                [\<lparr>f_task_id = taskId (resolveSettings abort_plan no_options),
                  f_checkpoint = checkpointDirName (length cs1) c,
                  f_action_index = i, f_action = b, f_error = err',
                  f_url = page_url (scripted_pw empty_script) (world (pg t2)), f_timestamp = clock (pg t2)\<rparr>]
          \<and> (\<forall>cs2'. executeCheckpointedPlan (scripted_pw empty_script) no_planner (abort_plan\<lparr>p_checkpoints := Some (cs1 @ c # cs2')\<rparr>) no_options demo_state
                       = (Inl e, s))))
   \<and> (let fs = [(''outputs/task/first_checkpoint'', ''00_first_checkpoint_0.png'', Png),
            (''outputs/task/first_checkpoint'', ''meta.json'',
             Meta \<lparr>m_task_id = ''task'', m_checkpoint = ''first_checkpoint'', m_action_index = 0,
                   m_action_type = Some Goto, m_selector_used = None, m_notes = None,
                   m_url = ''https://example.test'', m_timestamp = 0, m_planner_confidence = None\<rparr>),
            (''outputs/task/first_checkpoint'', ''.screenshot_saved'', Marker 0)];
           u1 = \<lparr>pg = \<lparr>clock = 0, world = \<lparr>elapsed = 0, events = [''goto https://example.test/start'']\<rparr>\<rparr>, files = fs, lastSelectorUsed = None\<rparr>;
           u2 = \<lparr>pg = \<lparr>clock = 0, world = \<lparr>elapsed = 0, events = [''goto https://example.test/start'', ''goto https://example.test/mid'']\<rparr>\<rparr>, files = fs, lastSelectorUsed = None\<rparr>;
           u4 = \<lparr>pg = \<lparr>clock = 800, world = \<lparr>elapsed = 800, events = [''goto https://example.test/start'', ''goto https://example.test/mid'']\<rparr>\<rparr>, files = fs, lastSelectorUsed = None\<rparr>
       in planCheckpoints late_abort_plan = [late_first] @ late_second # [late_third]
          \<and> runCheckpoints (scripted_pw empty_script) no_planner (resolveSettings late_abort_plan no_options) 0 [late_first] demo_state = (None, u1)
          \<and> action_sequence late_second = [Some (goto_action ''https://example.test/mid'')] @ Some (plain_action Click [''#gone'']) # [Some (goto_action ''https://example.test/after'')]
          \<and> runActions (scripted_pw empty_script) no_planner (resolveSettings late_abort_plan no_options) (checkpointDirName (length [late_first]) late_second) None 0 [Some (goto_action ''https://example.test/mid'')]
         (u1\<lparr>lastSelectorUsed := None\<rparr>) = (None, u2)
          \<and> execAction (scripted_pw empty_script) (resolveSettings late_abort_plan no_options) (checkpointDirName (length [late_first]) late_second) (length [Some (goto_action ''https://example.test/mid'')])
         (if [Some (goto_action ''https://example.test/mid'')] = [] then None else last [Some (goto_action ''https://example.test/mid'')]) (plain_action Click [''#gone'']) u2
         = (Thrown ClickNoClickable, u2)
          \<and> recoverAction (scripted_pw empty_script) no_planner (resolveSettings late_abort_plan no_options) (plain_action Click [''#gone'']) u2 = (False, u4)
          \<and> executeCheckpointedPlan (scripted_pw empty_script) no_planner late_abort_plan no_options demo_state
         = (Inl (ExecutorAborted ''second_checkpoint'' 1 ClickNoClickable), u4\<lparr>files := fs @ [(''outputs/task/second_checkpoint'', ''failure.json'',
             Failure \<lparr>f_task_id = ''task'', f_checkpoint = ''second_checkpoint'', f_action_index = 1,
                      f_action = plain_action Click [''#gone''], f_error = ClickNoClickable,
                      f_url = ''https://example.test'', f_timestamp = 800\<rparr>)]\<rparr>))"
proof -
  let ?e = "ExecutorAborted ''first_checkpoint'' 0 ClickNoClickable"
  let ?s = "\<lparr>pg = \<lparr>clock = 800, world = \<lparr>elapsed = 800, events = []\<rparr>\<rparr>,
      files = [(''outputs/task/first_checkpoint'', ''failure.json'',
         Failure \<lparr>f_task_id = ''task'', f_checkpoint = ''first_checkpoint'', f_action_index = 0,
                  f_action = plain_action Click [''#gone''], f_error = ClickNoClickable,
                  f_url = ''https://example.test'', f_timestamp = 800\<rparr>)],
      lastSelectorUsed = None\<rparr>"
  have run: "executeCheckpointedPlan (scripted_pw empty_script) no_planner abort_plan no_options demo_state
     = (Inl ?e, ?s)"
    by code_simp
  have ne: "?e \<noteq> NoCheckpoints" by simp
  have bwd: "(\<exists>cs1 c cs2 i b err' prev' t0 t1 t2.
          planCheckpoints abort_plan = cs1 @ c # cs2
          \<and> i < length (action_sequence c) \<and> action_sequence c ! i = Some b
          \<and> execAction (scripted_pw empty_script) (resolveSettings abort_plan no_options) (checkpointDirName (length cs1) c) i prev' b t0 = (Thrown err', t1)
          \<and> recoverAction (scripted_pw empty_script) no_planner (resolveSettings abort_plan no_options) b t1 = (False, t2)
          \<and> ?e = ExecutorAborted (checkpointDirName (length cs1) c) i err'
          \<and> ?s = aborted (scripted_pw empty_script) (resolveSettings abort_plan no_options) (checkpointDirName (length cs1) c) i b err' t2
          \<and> failure_docs (files ?s) = failure_docs (files demo_state) @
                [\<lparr>f_task_id = taskId (resolveSettings abort_plan no_options),
                  f_checkpoint = checkpointDirName (length cs1) c,
                  f_action_index = i, f_action = b, f_error = err',
                  f_url = page_url (scripted_pw empty_script) (world (pg t2)), f_timestamp = clock (pg t2)\<rparr>]
          \<and> (\<forall>cs2'. executeCheckpointedPlan (scripted_pw empty_script) no_planner (abort_plan\<lparr>p_checkpoints := Some (cs1 @ c # cs2')\<rparr>) no_options demo_state
                       = (Inl ?e, ?s)))"
    by (rule abort_containment [THEN conjunct2, THEN conjunct2, THEN conjunct1, THEN mp, OF conjI [OF run ne]])
  let ?fs = "[(''outputs/task/first_checkpoint'', ''00_first_checkpoint_0.png'', Png),
            (''outputs/task/first_checkpoint'', ''meta.json'',
             Meta \<lparr>m_task_id = ''task'', m_checkpoint = ''first_checkpoint'', m_action_index = 0,
                   m_action_type = Some Goto, m_selector_used = None, m_notes = None,
                   m_url = ''https://example.test'', m_timestamp = 0, m_planner_confidence = None\<rparr>),
            (''outputs/task/first_checkpoint'', ''.screenshot_saved'', Marker 0)]"
  let ?u1 = "\<lparr>pg = \<lparr>clock = 0, world = \<lparr>elapsed = 0, events = [''goto https://example.test/start'']\<rparr>\<rparr>, files = ?fs, lastSelectorUsed = None\<rparr>"
  let ?u2 = "\<lparr>pg = \<lparr>clock = 0, world = \<lparr>elapsed = 0, events = [''goto https://example.test/start'', ''goto https://example.test/mid'']\<rparr>\<rparr>, files = ?fs, lastSelectorUsed = None\<rparr>"
  let ?u4 = "\<lparr>pg = \<lparr>clock = 800, world = \<lparr>elapsed = 800, events = [''goto https://example.test/start'', ''goto https://example.test/mid'']\<rparr>\<rparr>, files = ?fs, lastSelectorUsed = None\<rparr>"
  have h1: "planCheckpoints late_abort_plan = [late_first] @ late_second # [late_third]"
    by code_simp
  have h2: "runCheckpoints (scripted_pw empty_script) no_planner (resolveSettings late_abort_plan no_options) 0 [late_first] demo_state = (None, ?u1)"
    by code_simp
  have h3: "action_sequence late_second = [Some (goto_action ''https://example.test/mid'')] @ Some (plain_action Click [''#gone'']) # [Some (goto_action ''https://example.test/after'')]"
    by code_simp
  have h4: "runActions (scripted_pw empty_script) no_planner (resolveSettings late_abort_plan no_options) (checkpointDirName (length [late_first]) late_second) None 0 [Some (goto_action ''https://example.test/mid'')]
         (?u1\<lparr>lastSelectorUsed := None\<rparr>) = (None, ?u2)"
    by code_simp
  have h5: "execAction (scripted_pw empty_script) (resolveSettings late_abort_plan no_options) (checkpointDirName (length [late_first]) late_second) (length [Some (goto_action ''https://example.test/mid'')])
         (if [Some (goto_action ''https://example.test/mid'')] = [] then None else last [Some (goto_action ''https://example.test/mid'')]) (plain_action Click [''#gone'']) ?u2
         = (Thrown ClickNoClickable, ?u2)"
    by code_simp
  have h6: "recoverAction (scripted_pw empty_script) no_planner (resolveSettings late_abort_plan no_options) (plain_action Click [''#gone'']) ?u2 = (False, ?u4)"
    by code_simp
  have fwd: "executeCheckpointedPlan (scripted_pw empty_script) no_planner late_abort_plan no_options demo_state
         = (Inl (ExecutorAborted (checkpointDirName (length [late_first]) late_second) (length [Some (goto_action ''https://example.test/mid'')]) ClickNoClickable),
            aborted (scripted_pw empty_script) (resolveSettings late_abort_plan no_options) (checkpointDirName (length [late_first]) late_second) (length [Some (goto_action ''https://example.test/mid'')]) (plain_action Click [''#gone'']) ClickNoClickable ?u4)"
    by (rule abort_containment [THEN conjunct2, THEN conjunct2, THEN conjunct2, THEN mp,
          OF conjI [OF h1 conjI [OF h2 conjI [OF h3 conjI [OF h4 conjI [OF h5 h6]]]]]])
  have val: "(Inl (ExecutorAborted (checkpointDirName (length [late_first]) late_second) (length [Some (goto_action ''https://example.test/mid'')]) ClickNoClickable) :: error + run_result,
            aborted (scripted_pw empty_script) (resolveSettings late_abort_plan no_options) (checkpointDirName (length [late_first]) late_second) (length [Some (goto_action ''https://example.test/mid'')]) (plain_action Click [''#gone'']) ClickNoClickable ?u4)
         = (Inl (ExecutorAborted ''second_checkpoint'' 1 ClickNoClickable), ?u4\<lparr>files := ?fs @ [(''outputs/task/second_checkpoint'', ''failure.json'',
             Failure \<lparr>f_task_id = ''task'', f_checkpoint = ''second_checkpoint'', f_action_index = 1,
                      f_action = plain_action Click [''#gone''], f_error = ClickNoClickable,
                      f_url = ''https://example.test'', f_timestamp = 800\<rparr>)]\<rparr>)"
    by code_simp
  have h7: "executeCheckpointedPlan (scripted_pw empty_script) no_planner late_abort_plan no_options demo_state
         = (Inl (ExecutorAborted ''second_checkpoint'' 1 ClickNoClickable), ?u4\<lparr>files := ?fs @ [(''outputs/task/second_checkpoint'', ''failure.json'',
             Failure \<lparr>f_task_id = ''task'', f_checkpoint = ''second_checkpoint'', f_action_index = 1,
                      f_action = plain_action Click [''#gone''], f_error = ClickNoClickable,
                      f_url = ''https://example.test'', f_timestamp = 800\<rparr>)]\<rparr>)"
    using fwd val by (rule trans)
  from run bwd h1 h2 h3 h4 h5 h6 h7 show ?thesis by (simp only: Let_def simp_thms)
qed

section \<open>Capture deduplication and storage keys\<close>


lemma existsSync_last: "existsSync (fs @ [(dir, n, content)]) dir n"
  by (simp add: existsSync_def)













section \<open>Recovery candidate extraction\<close>

lemma set_string_items: "set (string_items vs) = {x. JStr x \<in> set vs \<and> trim x \<noteq> []}"
  by (induction vs rule: string_items.induct) auto

lemma reaches_JObj_Cons:
  "reaches (JObj ((k, v) # kvs)) vs \<longleftrightarrow>
     (selector_key k \<and> v = JArr vs) \<or> (\<not> selector_key k \<and> reaches v vs) \<or> reaches (JObj kvs) vs"
  by (auto simp: reaches.simps [of "JObj xs" for xs])

lemma reaches_JArr_Cons:
  "reaches (JArr (v # items)) vs \<longleftrightarrow> reaches v vs \<or> reaches (JArr items) vs"
  by (auto simp: reaches.simps [of "JArr xs" for xs])

lemma reaches_simps [simp]:
  "\<not> reaches (JObj []) vs" "\<not> reaches (JArr []) vs" "\<not> reaches JNull vs"
  "\<not> reaches (JBool b) vs" "\<not> reaches (JNum n) vs" "\<not> reaches (JStr s) vs"
  by (auto elim: reaches.cases)

lemma set_collect:
  "set (collectFrom j) = candidate_strings j"
  "set (collectItems items) = candidate_strings (JArr items)"
  "set (collectFields kvs) = candidate_strings (JObj kvs)"
proof (induction j and items and kvs rule: collectFrom_collectItems_collectFields.induct)
  case (10 k v kvs)
  show ?case
  proof (cases "selector_key k")
    case True
    then show ?thesis using 10
      by (cases v) (auto simp: candidate_strings_def reaches_JObj_Cons set_string_items)
  next
    case False
    then show ?thesis using 10
      by (auto simp: candidate_strings_def reaches_JObj_Cons)
  qed
qed (auto simp: candidate_strings_def reaches_JArr_Cons)

lemma from_Set_props: "set (from_Set xs) = set xs" "distinct (from_Set xs)"
  by (simp_all add: from_Set_def)

lemma recovery_uniq:
  "filter (\<lambda>s. s \<noteq> []) (map trim (from_Set (collectFrom j))) = map trim (from_Set (collectFrom j))"
proof -
  have "\<forall>x \<in> set (from_Set (collectFrom j)). trim x \<noteq> []"
    by (auto simp add: from_Set_props set_collect candidate_strings_def)
  then show ?thesis by (induction "from_Set (collectFrom j)") (auto simp: filter_map o_def)
qed

lemma askPlannerForRecovery_Some:
  "askPlannerForRecovery (Some j) =
     (if candidate_strings j = {} then None else Some (take 12 (map trim (from_Set (collectFrom j)))))"
proof -
  have "candidate_strings j = {} \<longleftrightarrow> from_Set (collectFrom j) = []"
    using from_Set_props(1) [of "collectFrom j"] set_collect(1) [of j] by (metis set_empty)
  then show ?thesis
    by (simp add: askPlannerForRecovery_def Let_def recovery_uniq)
qed

text \<open>
  Claim C8 (recovery candidate extraction), as amended. A failed planner call gives no
  candidates. Otherwise the candidates are drawn from the non-blank strings that are
  elements of an array stored under one of the keys \<^verbatim>\<open>selector\<close>, \<^verbatim>\<open>selector_candidates\<close>,
  \<^verbatim>\<open>selectors\<close>, in an object reached through arrays and fields with other keys: there
  are no candidates exactly when there is no such string; the candidates returned are
  trimmed, not empty, at most twelve, and all of them when there are at most twelve
  such strings.
\<close>

theorem recovery_extraction:
  "askPlannerForRecovery None = None
   \<and> (askPlannerForRecovery (Some j) = None \<longleftrightarrow> candidate_strings j = {})
   \<and> (askPlannerForRecovery (Some j) = Some cs \<longrightarrow>
        cs \<noteq> [] \<and> length cs \<le> 12 \<and> [] \<notin> set cs \<and> set cs \<subseteq> trim ` candidate_strings j
        \<and> (card (candidate_strings j) \<le> 12 \<longrightarrow> set cs = trim ` candidate_strings j))"
proof (intro conjI impI)
  show "askPlannerForRecovery None = None" by (simp add: askPlannerForRecovery_def)
  show "askPlannerForRecovery (Some j) = None \<longleftrightarrow> candidate_strings j = {}"
    by (simp add: askPlannerForRecovery_Some)
next
  let ?xs = "from_Set (collectFrom j)"
  assume "askPlannerForRecovery (Some j) = Some cs"
  then have ne: "candidate_strings j \<noteq> {}" and cs: "cs = take 12 (map trim ?xs)"
    by (auto simp: askPlannerForRecovery_Some split: if_splits)
  have set_xs: "set ?xs = candidate_strings j"
    by (simp add: from_Set_props set_collect)
  with ne have "?xs \<noteq> []" by auto
  with cs show "cs \<noteq> []" by simp
  from cs show "length cs \<le> 12" by simp
  have sub: "set cs \<subseteq> trim ` set ?xs"
    unfolding cs using set_take_subset [of 12 "map trim ?xs"] by simp
  with set_xs show "set cs \<subseteq> trim ` candidate_strings j" by simp
  have "\<forall>x \<in> set ?xs. trim x \<noteq> []"
    by (auto simp add: set_xs candidate_strings_def)
  with sub show "[] \<notin> set cs" by force
  show "set cs = trim ` candidate_strings j" if "card (candidate_strings j) \<le> 12"
  proof -
    have "length ?xs = card (set ?xs)"
      using from_Set_props(2) [of "collectFrom j"] by (simp add: distinct_card)
    with that set_xs have "length ?xs \<le> 12" by simp
    with cs have "cs = map trim ?xs" by simp
    with set_xs show ?thesis by simp
  qed
qed

theorem recovery_extraction_witness:
  "askPlannerForRecovery
     (Some (JObj [(''plan'', JArr [JObj [(''type'', JStr ''click''),
        (''selector'', JArr [JStr ''#a '', JStr ''  '', JNum 3, JStr ''#b'', JStr ''#a ''])]])]))
     = Some [''#a'', ''#b'']
   \<and> set [''#a'', ''#b''] \<subseteq> trim ` candidate_strings
        (JObj [(''plan'', JArr [JObj [(''type'', JStr ''click''),
        (''selector'', JArr [JStr ''#a '', JStr ''  '', JNum 3, JStr ''#b'', JStr ''#a ''])]])])"
proof -
  let ?j = "JObj [(''plan'', JArr [JObj [(''type'', JStr ''click''),
        (''selector'', JArr [JStr ''#a '', JStr ''  '', JNum 3, JStr ''#b'', JStr ''#a ''])]])]"
  have run: "askPlannerForRecovery (Some ?j) = Some [''#a'', ''#b'']"
    by (simp add: askPlannerForRecovery_def from_Set_def selector_key_def trim_def is_space_def Let_def)
  from recovery_extraction [of ?j "[''#a'', ''#b'']"] run
  have "set [''#a'', ''#b''] \<subseteq> trim ` candidate_strings ?j" by (simp only: simp_thms)
  with run show ?thesis by (rule conjI)
qed

text \<open>
  Claim C8 as stated fails: a string stored directly under the key \<^verbatim>\<open>selector\<close> is a
  string found under a reference-like key, yet it is not collected.
\<close>

theorem recovery_extraction_counterexample:
  "strings_under_keys (JObj [(''selector'', JStr ''#a'')]) = [''#a'']
   \<and> askPlannerForRecovery (Some (JObj [(''selector'', JStr ''#a'')])) = None"
  by (simp add: askPlannerForRecovery_def from_Set_def selector_key_def Let_def)

end
